theory Spec2Isabelle
  imports Main "HOL-Library.Sublist"
begin

section \<open>Strings and arrays of the host language\<close>

text \<open>
  Strings are modelled as \<^typ>\<open>string\<close> (lists of 8-bit characters). The library
  operations of the host language that the scripts rely on are written out for that type:
  \<open>toLowerCase\<close> and \<open>trim\<close> act on the ASCII range, \<open>includes\<close> is
  \<^const>\<open>sublist\<close>, \<open>Array.from(new Set(xs))\<close> keeps the first occurrence of every
  element in insertion order, \<open>slice(0, n)\<close> is \<^const>\<open>take\<close>.
\<close>

definition toLowerCase_char :: "char \<Rightarrow> char" where
  "toLowerCase_char c =
     (case map_of (zip ''ABCDEFGHIJKLMNOPQRSTUVWXYZ'' ''abcdefghijklmnopqrstuvwxyz'') c of
        None \<Rightarrow> c | Some l \<Rightarrow> l)"

text \<open>\<^verbatim>\<open>const normalize = (value: string) => value.toLowerCase();\<close>\<close>

definition normalize_str :: "string \<Rightarrow> string" where
  "normalize_str v = map toLowerCase_char v"

text \<open>\<^verbatim>\<open>keywords.some((keyword) => normalize(value).includes(keyword))\<close>\<close>

definition hasKeyword :: "string \<Rightarrow> string list \<Rightarrow> bool" where
  "hasKeyword v kws = list_ex (\<lambda>keyword. sublist keyword (normalize_str v)) kws"

definition is_space :: "char \<Rightarrow> bool" where
  "is_space c = (c \<in> set [CHR '' '', CHR 0x09, CHR 0x0A, CHR 0x0B, CHR 0x0C, CHR 0x0D])"

definition trim :: "string \<Rightarrow> string" where
  "trim s = rev (dropWhile is_space (rev (dropWhile is_space s)))"

text \<open>\<open>label.replace(/"/g, "'")\<close>\<close>

definition replace_quotes :: "string \<Rightarrow> string" where
  "replace_quotes s = map (\<lambda>c. if c = CHR 0x22 then CHR 0x27 else c) s"

text \<open>\<open>xs.join(sep)\<close>\<close>

fun join :: "string \<Rightarrow> string list \<Rightarrow> string" where
  "join sep [] = []"
| "join sep [x] = x"
| "join sep (x # y # ys) = x @ sep @ join sep (y # ys)"

text \<open>Insertion of a sequence of values into a \<open>Set\<close>, read back in insertion order.\<close>

fun set_add_all :: "'a list \<Rightarrow> 'a list \<Rightarrow> 'a list" where
  "set_add_all acc [] = acc"
| "set_add_all acc (x # xs) = set_add_all (if x \<in> set acc then acc else acc @ [x]) xs"

definition array_from_set :: "'a list \<Rightarrow> 'a list" where
  "array_from_set xs = set_add_all [] xs"

text \<open>Decimal rendering of a non-negative integer, as template literals do.\<close>

definition digit_char :: "nat \<Rightarrow> char" where
  "digit_char d = ''0123456789'' ! d"

function string_of_nat :: "nat \<Rightarrow> string" where
  "string_of_nat n =
     (if n < 10 then [digit_char n] else string_of_nat (n div 10) @ [digit_char (n mod 10)])"
  by pat_completeness auto
termination
  by (relation "measure id") auto

declare string_of_nat.simps [simp del]

section \<open>Flow synthesis (\<open>scripts/build_flow.ts\<close>)\<close>

subsection \<open>Data model\<close>

record NavItem =
  nav_text :: string
  nav_href :: "string option"

record PageContext =
  url :: string
  title :: "string option"
  navItems :: "NavItem list option"
  links :: "string list option"
  hasPasswordInput :: "bool option"
  loginDetected :: "bool option"
  hasSearchInput :: "bool option"

record UxCounts =
  missingTitlePages :: "nat option"
  multipleH1Pages :: "nat option"
  imagesMissingAlt :: "nat option"
  buttonsMissingLabel :: "nat option"
  brokenLinks :: "nat option"

record FlowNode =
  node_id :: string
  node_url :: string
  node_label :: string

record FlowMeta =
  targetUrl :: string
  generatedAt :: string
  nodeCount :: nat
  edgeCount :: nat

record FlowArtifacts =
  summary :: string
  mermaid :: string
  flowMeta :: FlowMeta
  nodes :: "FlowNode list"
  edges :: "string list"

text \<open>Truthiness of an optional boolean flag and of an optional string.\<close>

definition flag :: "bool option \<Rightarrow> bool" where
  "flag b = (b = Some True)"

definition truthy :: "string option \<Rightarrow> bool" where
  "truthy s = (case s of None \<Rightarrow> False | Some v \<Rightarrow> v \<noteq> [])"

definition title_or_empty :: "PageContext \<Rightarrow> string" where
  "title_or_empty page = (case title page of None \<Rightarrow> [] | Some t \<Rightarrow> t)"

definition url_and_title :: "PageContext \<Rightarrow> string" where
  "url_and_title page = url page @ '' '' @ title_or_empty page"

subsection \<open>Classification\<close>

definition isLoginPage :: "PageContext \<Rightarrow> bool" where
  "isLoginPage page =
     (flag (hasPasswordInput page) \<or> flag (loginDetected page) \<or>
      hasKeyword (url page) [''login'', ''signin'', ''sign-in''])"

definition isCheckoutPage :: "PageContext \<Rightarrow> bool" where
  "isCheckoutPage page =
     hasKeyword (url_and_title page) [''cart'', ''checkout'', ''payment'', ''order'', ''basket'']"

definition isAccountPage :: "PageContext \<Rightarrow> bool" where
  "isAccountPage page =
     hasKeyword (url_and_title page) [''account'', ''profile'', ''settings'', ''dashboard'']"

definition isSearchPage :: "PageContext \<Rightarrow> bool" where
  "isSearchPage page =
     (flag (hasSearchInput page) \<or> hasKeyword (url_and_title page) [''search''])"

definition loginPages :: "PageContext list \<Rightarrow> PageContext list" where
  "loginPages pages = filter isLoginPage pages"

definition checkoutPages :: "PageContext list \<Rightarrow> PageContext list" where
  "checkoutPages pages = filter isCheckoutPage pages"

definition accountPages :: "PageContext list \<Rightarrow> PageContext list" where
  "accountPages pages = filter isAccountPage pages"

definition searchPages :: "PageContext list \<Rightarrow> PageContext list" where
  "searchPages pages = filter isSearchPage pages"

subsection \<open>Narrative summary\<close>

definition navSeeds :: "PageContext list \<Rightarrow> string list" where
  "navSeeds pages =
     filter (\<lambda>t. t \<noteq> [])
       (map nav_text (concat (map (\<lambda>page. case navItems page of None \<Rightarrow> [] | Some items \<Rightarrow> items) pages)))"

definition uniqueNav :: "PageContext list \<Rightarrow> string list" where
  "uniqueNav pages = take 6 (array_from_set (navSeeds pages))"

definition count_or_zero :: "nat option \<Rightarrow> string" where
  "count_or_zero c = string_of_nat (case c of None \<Rightarrow> 0 | Some n \<Rightarrow> n)"

definition mainFlowLines :: "PageContext list \<Rightarrow> string list" where
  "mainFlowLines pages =
     [''## Main Flows'',
      ''- Public navigation: Home -> '' @
        (if uniqueNav pages \<noteq> [] then join '' -> '' (uniqueNav pages) else ''Primary pages'')] @
     (if loginPages pages \<noteq> [] then [''- Login flow: Home -> Login -> Post-login landing''] else []) @
     (if checkoutPages pages \<noteq> [] then [''- Checkout flow: Browse -> Product -> Cart -> Checkout''] else []) @
     (if searchPages pages \<noteq> [] then [''- Search flow: Search -> Results -> Detail''] else []) @
     (if accountPages pages \<noteq> [] then [''- Account flow: Account -> Settings''] else [])"

definition siteMapLines :: "PageContext list \<Rightarrow> string list" where
  "siteMapLines pages =
     [''## Site Map'',
      ''- Pages discovered: '' @ string_of_nat (length pages),
      ''- Login-related pages: '' @ string_of_nat (length (loginPages pages)),
      ''- Checkout-related pages: '' @ string_of_nat (length (checkoutPages pages)),
      ''- Account-related pages: '' @ string_of_nat (length (accountPages pages))]"

definition uxCheckLines :: "UxCounts option \<Rightarrow> string list" where
  "uxCheckLines uxCounts =
     [''## UX Checks'',
      ''- Missing title pages: '' @ count_or_zero (Option.bind uxCounts missingTitlePages),
      ''- Multiple H1 pages: '' @ count_or_zero (Option.bind uxCounts multipleH1Pages),
      ''- Images missing alt: '' @ count_or_zero (Option.bind uxCounts imagesMissingAlt),
      ''- Buttons missing label: '' @ count_or_zero (Option.bind uxCounts buttonsMissingLabel),
      ''- Broken links (sample): '' @ count_or_zero (Option.bind uxCounts brokenLinks)]"

definition summaryLines :: "string \<Rightarrow> PageContext list \<Rightarrow> UxCounts option \<Rightarrow> string \<Rightarrow> string list" where
  "summaryLines target pages uxCounts generated =
     [''# Process Flow Summary'',
      '''',
      ''Target: '' @ (if target \<noteq> [] then target else ''Unknown''),
      ''Generated: '' @ generated,
      ''''] @
     mainFlowLines pages @
     [''''] @
     siteMapLines pages @
     [''''] @
     uxCheckLines uxCounts @
     ['''',
      ''## Report Files'',
      ''- Flow diagram: flow.html'',
      ''- Mermaid source: flow.mmd'',
      ''- URLs: urls.json'',
      ''- Page context: pages.json'',
      ''- Screenshots: screenshots/'']"

subsection \<open>Nodes\<close>

definition node_of :: "nat \<Rightarrow> PageContext \<Rightarrow> FlowNode" where
  "node_of index page =
     \<lparr>node_id = ''p'' @ string_of_nat (index + 1),
      node_url = url page,
      node_label = replace_quotes
        (if truthy (title page) \<and> trim (title_or_empty page) \<noteq> []
         then trim (title_or_empty page) else url page)\<rparr>"

definition mk_nodes :: "PageContext list \<Rightarrow> FlowNode list" where
  "mk_nodes pages = map (\<lambda>(index, page). node_of index page) (enumerate 0 pages)"

subsection \<open>Edges\<close>

text \<open>\<open>new Map(nodes.map((node) => [node.url, node.id]))\<close>: a later entry replaces an
  earlier one with the same key.\<close>

fun map_entries :: "(string \<rightharpoonup> string) \<Rightarrow> FlowNode list \<Rightarrow> (string \<rightharpoonup> string)" where
  "map_entries m [] = m"
| "map_entries m (node # rest) = map_entries (m(node_url node \<mapsto> node_id node)) rest"

definition urlToId :: "FlowNode list \<Rightarrow> (string \<rightharpoonup> string)" where
  "urlToId ns = map_entries Map.empty ns"

definition edge_text :: "string \<Rightarrow> string \<Rightarrow> string" where
  "edge_text fromId toId = fromId @ '' --> '' @ toId"

text \<open>The inner loop over the links of one page, pushing onto \<open>edges\<close>.\<close>

fun push_links :: "(string \<rightharpoonup> string) \<Rightarrow> string \<Rightarrow> string list \<Rightarrow> string list \<Rightarrow> string list" where
  "push_links m fromId [] es = es"
| "push_links m fromId (link # rest) es =
     push_links m fromId rest
       (if truthy (m link) then es @ [edge_text fromId (the (m link))] else es)"

text \<open>\<open>page.links ?? []\<close>\<close>

definition links_of :: "PageContext \<Rightarrow> string list" where
  "links_of page = (case links page of None \<Rightarrow> [] | Some ls \<Rightarrow> ls)"

text \<open>The outer loop over the pages; a page whose \<open>fromId\<close> is falsy is skipped.\<close>

fun push_pages :: "(string \<rightharpoonup> string) \<Rightarrow> PageContext list \<Rightarrow> string list \<Rightarrow> string list" where
  "push_pages m [] es = es"
| "push_pages m (page # rest) es =
     push_pages m rest
       (if \<not> truthy (m (url page)) then es
        else push_links m (the (m (url page))) (links_of page) es)"

definition all_edges :: "PageContext list \<Rightarrow> string list" where
  "all_edges pages = push_pages (urlToId (mk_nodes pages)) pages []"

definition limitedEdges :: "PageContext list \<Rightarrow> string list" where
  "limitedEdges pages = take 120 (array_from_set (all_edges pages))"

subsection \<open>Diagram source\<close>

definition node_line :: "FlowNode \<Rightarrow> string" where
  "node_line node = ''    '' @ node_id node @ [CHR ''['', CHR 0x22] @ node_label node @ [CHR 0x22, CHR '']'']"

definition loginSet :: "PageContext list \<Rightarrow> string set" where
  "loginSet pages = set (map url (loginPages pages))"

definition checkoutSet :: "PageContext list \<Rightarrow> string set" where
  "checkoutSet pages = set (map url (checkoutPages pages))"

definition accountSet :: "PageContext list \<Rightarrow> string set" where
  "accountSet pages = set (map url (accountPages pages))"

definition publicBlock :: "PageContext list \<Rightarrow> string list" where
  "publicBlock pages =
     [''  subgraph Public''] @
     map node_line
       (filter (\<lambda>node. node_url node \<notin> loginSet pages \<and> node_url node \<notin> checkoutSet pages \<and>
                        node_url node \<notin> accountSet pages) (mk_nodes pages)) @
     [''  end'']"

definition authBlock :: "PageContext list \<Rightarrow> string list" where
  "authBlock pages =
     (if loginPages pages \<noteq> []
      then [''  subgraph Auth''] @
           map node_line (filter (\<lambda>node. node_url node \<in> loginSet pages) (mk_nodes pages)) @
           [''  end'']
      else [])"

definition checkoutBlock :: "PageContext list \<Rightarrow> string list" where
  "checkoutBlock pages =
     (if checkoutPages pages \<noteq> []
      then [''  subgraph Checkout''] @
           map node_line (filter (\<lambda>node. node_url node \<in> checkoutSet pages) (mk_nodes pages)) @
           [''  end'']
      else [])"

definition accountBlock :: "PageContext list \<Rightarrow> string list" where
  "accountBlock pages =
     (if accountPages pages \<noteq> []
      then [''  subgraph Account''] @
           map node_line (filter (\<lambda>node. node_url node \<in> accountSet pages) (mk_nodes pages)) @
           [''  end'']
      else [])"

definition edgeLines :: "PageContext list \<Rightarrow> string list" where
  "edgeLines pages = map (\<lambda>edge. ''  '' @ edge) (limitedEdges pages)"

definition mermaidLines :: "PageContext list \<Rightarrow> string list" where
  "mermaidLines pages =
     [''flowchart LR''] @ publicBlock pages @ authBlock pages @ checkoutBlock pages @
     accountBlock pages @ edgeLines pages"

subsection \<open>The synthesis function\<close>

definition buildFlowArtifacts ::
  "string \<Rightarrow> PageContext list \<Rightarrow> UxCounts option \<Rightarrow> string \<Rightarrow> FlowArtifacts" where
  "buildFlowArtifacts target pages uxCounts generated =
     \<lparr>summary = join [CHR 0x0A] (summaryLines target pages uxCounts generated),
      mermaid = join [CHR 0x0A] (mermaidLines pages),
      flowMeta = \<lparr>targetUrl = target, generatedAt = generated,
                  nodeCount = length (mk_nodes pages),
                  edgeCount = length (limitedEdges pages)\<rparr>,
      nodes = mk_nodes pages,
      edges = limitedEdges pages\<rparr>"

subsection \<open>Vocabulary for the properties\<close>

text \<open>
  Position \<open>k\<close> is the last page of the list that carries its url; a url is tagged when
  some page of the list with that url satisfies the tag's signal; a group block of the
  diagram; and a constructor for the example inputs.
\<close>

definition last_occurrence :: "PageContext list \<Rightarrow> nat \<Rightarrow> bool" where
  "last_occurrence pages k = (k < length pages \<and> url (pages ! k) \<notin> set (map url (drop (Suc k) pages)))"

definition url_tagged :: "(PageContext \<Rightarrow> bool) \<Rightarrow> PageContext list \<Rightarrow> string \<Rightarrow> bool" where
  "url_tagged tag pages u = list_ex (\<lambda>page. tag page \<and> url page = u) pages"

definition group :: "string \<Rightarrow> FlowNode list \<Rightarrow> string list" where
  "group name ns = [''  subgraph '' @ name] @ map node_line ns @ [''  end'']"

definition mk_page :: "string \<Rightarrow> string option \<Rightarrow> string list \<Rightarrow> bool option \<Rightarrow> PageContext" where
  "mk_page u t ls pw = \<lparr>url = u, title = t, navItems = None, links = Some ls,
                    hasPasswordInput = pw, loginDetected = None, hasSearchInput = None\<rparr>"

definition self_link_pages :: "PageContext list" where
  "self_link_pages = [mk_page ''https://x/'' None [''https://x/''] None]"

definition duplicate_pages :: "PageContext list" where
  "duplicate_pages =
     [mk_page ''https://x/a'' None [''https://x/a''] (Some True),
      mk_page ''https://x/a'' None [] None]"

definition scenario_pages :: "PageContext list" where
  "scenario_pages =
     [mk_page ''https://x/'' (Some ''Home'') [''https://x/login''] None,
      mk_page ''https://x/login'' (Some ''Login'') [] (Some True)]"

definition password_pages :: "PageContext list" where
  "password_pages = [mk_page ''https://x/a'' (Some ''Welcome'') [] (Some True)]"

section \<open>Discovery orchestration (\<open>scripts/run_discovery.ts\<close>)\<close>

subsection \<open>The discovered-URL artifact\<close>

record DiscoveredUrl =
  entry_url :: string
  source :: string

record UrlsArtifact =
  artifact_targetUrl :: string
  artifact_generatedAt :: string
  total :: nat
  sameOrigin :: nat
  urls :: "DiscoveredUrl list"
  forms :: "string list"
  artifact_links :: "string list"
  error :: "string option"

subsection \<open>Effects and the outside world\<close>

text \<open>
  The script talks to a container runtime, to the scanner's HTTP interface, to a browser
  and to the file system. Every such call is an event of the run's trace, in program
  order; what the outside answers is read from a record of the world. An exception is a
  value: either the script's own \<open>new Error("ZAP API did not become ready.")\<close> or a
  failure raised by an external call.
\<close>

datatype exn = ZapNotReady | External

datatype stdio = Ignore | Inherit

datatype command = DockerInfo | DockerRun string | DockerRm string

datatype endpoint =
  Version | AddRule string | SpiderScan | SpiderStatus string | AjaxScan | AjaxStatus
  | CoreUrls | SpiderResults string

datatype event =
  Exec command stdio bool
  | Fetch endpoint
  | Sleep nat
  | ConsoleWarn string
  | ConsoleError exn
  | BrowserLogin bool
  | WriteUrls UrlsArtifact bool

record cookie =
  cookie_name :: string
  cookie_value :: string

text \<open>
  \<open>TARGET_URL\<close> is the environment variable of that name (the script exits before \<open>main\<close> when it is empty).
  An optional answer is \<open>None\<close> when the call throws. \<open>version_probe\<close>,
  \<open>spider_status\<close> and \<open>ajax_status\<close> give the answer to the \<open>n\<close>-th poll;
  \<open>write_ok\<close> tells whether the \<open>n\<close>-th write of \<open>urls.json\<close> succeeds;
  \<open>origin_of\<close> is \<open>new URL(x).origin\<close>; \<open>clock\<close> is the time stamp read after
  \<open>n\<close> events.
\<close>

record world =
  TARGET_URL :: string
  authenticated :: bool
  secrets_present :: bool
  login_cookies :: "cookie list option"
  docker_info_ok :: bool
  docker_run_ok :: bool
  docker_rm_ok :: bool
  date_now :: nat
  version_probe :: "nat \<Rightarrow> bool option"
  add_rule_ok :: bool
  spider_scan :: "string option"
  spider_status :: "nat \<Rightarrow> string option"
  ajax_scan_ok :: bool
  ajax_status :: "nat \<Rightarrow> string option"
  core_urls :: "string list option option"
  spider_results :: "string list option option"
  origin_of :: "string \<Rightarrow> string option"
  write_ok :: "nat \<Rightarrow> bool"
  clock :: "nat \<Rightarrow> string"

subsection \<open>Observations on a trace\<close>

text \<open>The writes of \<open>urls.json\<close> attempted so far, each with its success.\<close>

fun artifact_of :: "event \<Rightarrow> (UrlsArtifact \<times> bool) list" where
  "artifact_of (WriteUrls a ok) = [(a, ok)]"
| "artifact_of _ = []"

definition written :: "event list \<Rightarrow> (UrlsArtifact \<times> bool) list" where
  "written tr = concat (map artifact_of tr)"

fun is_poll :: "event \<Rightarrow> bool" where
  "is_poll (Fetch e) = True"
| "is_poll (Sleep n) = True"
| "is_poll _ = False"

fun is_auth :: "event \<Rightarrow> bool" where
  "is_auth (ConsoleWarn m) = True"
| "is_auth (BrowserLogin ok) = True"
| "is_auth _ = False"

fun is_teardown :: "event \<Rightarrow> bool" where
  "is_teardown (Exec (DockerRm n) io ok) = True"
| "is_teardown _ = False"

fun is_console :: "event \<Rightarrow> bool" where
  "is_console (ConsoleWarn m) = True"
| "is_console (ConsoleError e) = True"
| "is_console _ = False"

fun is_engine_start :: "event \<Rightarrow> bool" where
  "is_engine_start (Exec (DockerRun n) io ok) = ok"
| "is_engine_start _ = False"

definition engine_started :: "event list \<Rightarrow> bool" where
  "engine_started tr = list_ex is_engine_start tr"

subsection \<open>Writing the artifact\<close>

definition writeJson :: "world \<Rightarrow> UrlsArtifact \<Rightarrow> event list \<Rightarrow> (exn + unit) \<times> event list" where
  "writeJson E a tr =
     (if write_ok E (length (written tr)) then (Inr (), tr @ [WriteUrls a True])
      else (Inl External, tr @ [WriteUrls a False]))"

definition fallback_artifact :: "world \<Rightarrow> string \<Rightarrow> string \<Rightarrow> UrlsArtifact" where
  "fallback_artifact E reason now =
     \<lparr>artifact_targetUrl = TARGET_URL E,
      artifact_generatedAt = now,
      total = 1,
      sameOrigin = 1,
      urls = [\<lparr>entry_url = TARGET_URL E, source = ''fallback''\<rparr>],
      forms = [],
      artifact_links = [],
      error = Some reason\<rparr>"

definition writeFallbackUrls :: "world \<Rightarrow> string \<Rightarrow> event list \<Rightarrow> (exn + unit) \<times> event list" where
  "writeFallbackUrls E reason tr = writeJson E (fallback_artifact E reason (clock E (length tr))) tr"

subsection \<open>Authentication cookies\<close>

text \<open>
  \<open>getAuthCookies\<close> returns \<open>null\<close> with a warning when a secret is missing.
  Otherwise it drives a browser session; the session is one event, whose outcome is
  either the harvested cookies or an exception (of the launch, the navigation, the form
  or the write of the cookie file), which the function lets through.
\<close>

definition getAuthCookies :: "world \<Rightarrow> event list \<Rightarrow> (exn + cookie list option) \<times> event list" where
  "getAuthCookies E tr =
     (if \<not> secrets_present E
      then (Inr None,
            tr @ [ConsoleWarn ''Authenticated crawl requested, but required secrets are missing. Falling back to public crawl.''])
      else (case login_cookies E of
              None \<Rightarrow> (Inl External, tr @ [BrowserLogin False])
            | Some cs \<Rightarrow> (Inr (Some cs), tr @ [BrowserLogin True])))"

definition cookie_header :: "cookie list \<Rightarrow> string" where
  "cookie_header cs = join ''; '' (map (\<lambda>c. cookie_name c @ ''='' @ cookie_value c) cs)"

definition auth_header :: "world \<Rightarrow> event list \<Rightarrow> (exn + string) \<times> event list" where
  "auth_header E tr =
     (if authenticated E
      then (case getAuthCookies E tr of
              (Inl e, tr') \<Rightarrow> (Inl e, tr')
            | (Inr None, tr') \<Rightarrow> (Inr [], tr')
            | (Inr (Some cs), tr') \<Rightarrow> (Inr (if cs \<noteq> [] then cookie_header cs else []), tr'))
      else (Inr [], tr))"

subsection \<open>The phases of the scan\<close>

definition containerName :: "world \<Rightarrow> string" where
  "containerName E = ''zap-'' @ string_of_nat (date_now E)"

text \<open>The readiness loop: at most 90 probes, one second apart.\<close>

function wait_ready :: "(nat \<Rightarrow> bool option) \<Rightarrow> nat \<Rightarrow> event list \<Rightarrow> bool \<times> event list" where
  "wait_ready probe attempt tr =
     (if attempt < 90
      then (if probe attempt = Some True then (True, tr @ [Fetch Version])
            else wait_ready probe (attempt + 1) (tr @ [Fetch Version, Sleep 1000]))
      else (False, tr))"
  by pat_completeness auto
termination
  by (relation "measure (\<lambda>(probe, attempt, tr). 90 - attempt)") auto

declare wait_ready.simps [simp del]

definition register_auth :: "world \<Rightarrow> string \<Rightarrow> event list \<Rightarrow> (exn + unit) \<times> event list" where
  "register_auth E cookieHeader tr =
     (if cookieHeader \<noteq> []
      then (if add_rule_ok E then Inr () else Inl External, tr @ [Fetch (AddRule cookieHeader)])
      else (Inr (), tr))"

text \<open>
  The two status loops have no bound: they run until the scanner reports completion or a
  call throws. A loop that never ends has no result.
\<close>

partial_function (option) poll_spider ::
  "(nat \<Rightarrow> string option) \<Rightarrow> string \<Rightarrow> nat \<Rightarrow> event list \<Rightarrow> ((exn + unit) \<times> event list) option" where
  "poll_spider status scanId n tr =
     (case status n of
        None \<Rightarrow> Some (Inl External, tr @ [Sleep 2000, Fetch (SpiderStatus scanId)])
      | Some s \<Rightarrow>
          if s = ''100'' then Some (Inr (), tr @ [Sleep 2000, Fetch (SpiderStatus scanId)])
          else poll_spider status scanId (Suc n) (tr @ [Sleep 2000, Fetch (SpiderStatus scanId)]))"

partial_function (option) poll_ajax ::
  "(nat \<Rightarrow> string option) \<Rightarrow> nat \<Rightarrow> event list \<Rightarrow> ((exn + unit) \<times> event list) option" where
  "poll_ajax status n tr =
     (case status n of
        None \<Rightarrow> Some (Inl External, tr @ [Sleep 3000, Fetch AjaxStatus])
      | Some s \<Rightarrow>
          if s = ''stopped'' then Some (Inr (), tr @ [Sleep 3000, Fetch AjaxStatus])
          else poll_ajax status (Suc n) (tr @ [Sleep 3000, Fetch AjaxStatus]))"

declare poll_spider.simps [code] poll_ajax.simps [code]

text \<open>\<open>filterSameOrigin\<close> of \<open>lib.ts\<close>: an unparsable target throws, an unparsable url is dropped.\<close>

definition filterSameOrigin :: "(string \<Rightarrow> string option) \<Rightarrow> string list \<Rightarrow> string \<Rightarrow> exn + string list" where
  "filterSameOrigin orig us tgt =
     (case orig tgt of
        None \<Rightarrow> Inl External
      | Some origin \<Rightarrow> Inr (filter (\<lambda>u. orig u = Some origin) us))"

definition or_empty :: "'a list option \<Rightarrow> 'a list" where
  "or_empty xs = (case xs of None \<Rightarrow> [] | Some ys \<Rightarrow> ys)"

definition engine_artifact :: "world \<Rightarrow> string list \<Rightarrow> string list \<Rightarrow> string \<Rightarrow> UrlsArtifact" where
  "engine_artifact E us filtered now =
     \<lparr>artifact_targetUrl = TARGET_URL E,
      artifact_generatedAt = now,
      total = length us,
      sameOrigin = length filtered,
      urls = map (\<lambda>u. \<lparr>entry_url = u, source = ''zap''\<rparr>) filtered,
      forms = [],
      artifact_links = [],
      error = None\<rparr>"

definition aggregate :: "world \<Rightarrow> string \<Rightarrow> event list \<Rightarrow> (exn + unit) \<times> event list" where
  "aggregate E scanId tr =
     (case core_urls E of
        None \<Rightarrow> (Inl External, tr @ [Fetch CoreUrls])
      | Some coreUrls \<Rightarrow>
          (case spider_results E of
             None \<Rightarrow> (Inl External, tr @ [Fetch CoreUrls, Fetch (SpiderResults scanId)])
           | Some spiderUrls \<Rightarrow>
               (case filterSameOrigin (origin_of E)
                       (array_from_set (or_empty coreUrls @ or_empty spiderUrls)) (TARGET_URL E) of
                  Inl e \<Rightarrow> (Inl e, tr @ [Fetch CoreUrls, Fetch (SpiderResults scanId)])
                | Inr filtered \<Rightarrow>
                    writeJson E
                      (engine_artifact E (array_from_set (or_empty coreUrls @ or_empty spiderUrls))
                         filtered (clock E (length tr + 2)))
                      (tr @ [Fetch CoreUrls, Fetch (SpiderResults scanId)]))))"

text \<open>The part of the \<open>try\<close> block after the engine has become ready.\<close>

definition scan :: "world \<Rightarrow> string \<Rightarrow> event list \<Rightarrow> ((exn + unit) \<times> event list) option" where
  "scan E cookieHeader tr =
     (case register_auth E cookieHeader tr of
        (Inl e, tr1) \<Rightarrow> Some (Inl e, tr1)
      | (Inr u, tr1) \<Rightarrow>
          (case spider_scan E of
             None \<Rightarrow> Some (Inl External, tr1 @ [Fetch SpiderScan])
           | Some scanId \<Rightarrow>
               (case poll_spider (spider_status E) scanId 0 (tr1 @ [Fetch SpiderScan]) of
                  None \<Rightarrow> None
                | Some (Inl e, tr2) \<Rightarrow> Some (Inl e, tr2)
                | Some (Inr u, tr2) \<Rightarrow>
                    if \<not> ajax_scan_ok E then Some (Inl External, tr2 @ [Fetch AjaxScan])
                    else (case poll_ajax (ajax_status E) 0 (tr2 @ [Fetch AjaxScan]) of
                            None \<Rightarrow> None
                          | Some (Inl e, tr3) \<Rightarrow> Some (Inl e, tr3)
                          | Some (Inr u, tr3) \<Rightarrow> Some (aggregate E scanId tr3)))))"

text \<open>
  The \<open>try\<close> block. Its result comes with the value of \<open>containerStarted\<close>, which the
  \<open>finally\<close> block reads.
\<close>

definition try_body :: "world \<Rightarrow> string \<Rightarrow> event list \<Rightarrow> ((exn + unit) \<times> bool \<times> event list) option" where
  "try_body E cookieHeader tr =
     (if \<not> docker_run_ok E
      then Some (Inl External, False, tr @ [Exec (DockerRun (containerName E)) Inherit False])
      else (case wait_ready (version_probe E) 0 (tr @ [Exec (DockerRun (containerName E)) Inherit True]) of
              (False, tr1) \<Rightarrow> Some (Inl ZapNotReady, True, tr1)
            | (True, tr1) \<Rightarrow>
                (case scan E cookieHeader tr1 of
                   None \<Rightarrow> None
                 | Some (r, tr2) \<Rightarrow> Some (r, True, tr2))))"

text \<open>The \<open>catch\<close> block and the \<open>finally\<close> block; a failed removal is ignored.\<close>

definition catch_block :: "world \<Rightarrow> exn + unit \<Rightarrow> event list \<Rightarrow> (exn + unit) \<times> event list" where
  "catch_block E r tr =
     (case r of
        Inr u \<Rightarrow> (Inr (), tr)
      | Inl e \<Rightarrow> writeFallbackUrls E ''zap_failed'' (tr @ [ConsoleError e]))"

definition finally_block :: "world \<Rightarrow> bool \<Rightarrow> event list \<Rightarrow> event list" where
  "finally_block E containerStarted tr =
     (if containerStarted
      then tr @ [Exec (DockerRm (containerName E)) Inherit (docker_rm_ok E)]
      else tr)"

definition main :: "world \<Rightarrow> ((exn + unit) \<times> event list) option" where
  "main E =
     (case auth_header E [] of
        (Inl e, tr) \<Rightarrow> Some (Inl e, tr)
      | (Inr cookieHeader, tr) \<Rightarrow>
          if \<not> docker_info_ok E
          then Some (writeFallbackUrls E ''docker_unavailable''
                 (tr @ [Exec DockerInfo Ignore False,
                        ConsoleWarn ''Docker is not available. Writing fallback URLs only.'']))
          else (case try_body E cookieHeader (tr @ [Exec DockerInfo Ignore True]) of
                  None \<Rightarrow> None
                | Some (r, containerStarted, tr1) \<Rightarrow>
                    (case catch_block E r tr1 of
                       (r', tr2) \<Rightarrow> Some (r', finally_block E containerStarted tr2))))"

text \<open>\<open>main().catch(...)\<close>: the handler of last resort.\<close>

definition run :: "world \<Rightarrow> ((exn + unit) \<times> event list) option" where
  "run E =
     (case main E of
        None \<Rightarrow> None
      | Some (Inr u, tr) \<Rightarrow> Some (Inr (), tr)
      | Some (Inl e, tr) \<Rightarrow> Some (writeFallbackUrls E ''unexpected_error'' (tr @ [ConsoleError e])))"

subsection \<open>Vocabulary for the properties\<close>

text \<open>
  What aggregation computes when every call of it succeeds: the deduplicated union of the
  two url lists, and its same-origin part. An engine artifact is the artifact built from
  these; a fallback artifact is the one \<open>writeFallbackUrls\<close> builds.
\<close>

definition aggregated :: "world \<Rightarrow> (string list \<times> string list) option" where
  "aggregated E =
     (case core_urls E of
        None \<Rightarrow> None
      | Some coreUrls \<Rightarrow>
          (case spider_results E of
             None \<Rightarrow> None
           | Some spiderUrls \<Rightarrow>
               (case filterSameOrigin (origin_of E)
                       (array_from_set (or_empty coreUrls @ or_empty spiderUrls)) (TARGET_URL E) of
                  Inl e \<Rightarrow> None
                | Inr filtered \<Rightarrow>
                    Some (array_from_set (or_empty coreUrls @ or_empty spiderUrls), filtered))))"

definition is_engine_artifact :: "world \<Rightarrow> UrlsArtifact \<Rightarrow> bool" where
  "is_engine_artifact E a =
     (\<exists>us filtered now. aggregated E = Some (us, filtered) \<and> a = engine_artifact E us filtered now)"

definition is_fallback :: "world \<Rightarrow> string \<Rightarrow> UrlsArtifact \<Rightarrow> bool" where
  "is_fallback E reason a = (\<exists>now. a = fallback_artifact E reason now)"

text \<open>The events a scan may append, given its result.\<close>

definition scan_events :: "world \<Rightarrow> exn + unit \<Rightarrow> event list \<Rightarrow> bool" where
  "scan_events E r evs =
     (filter is_teardown evs = [] \<and> filter is_console evs = [] \<and>
      \<not> list_ex is_engine_start evs \<and>
      ((written evs = [] \<and> r \<noteq> Inr ()) \<or>
       (\<exists>a ok. is_engine_artifact E a \<and> written evs = [(a, ok)] \<and>
          r = (if ok then Inr () else Inl External))))"

subsection \<open>Example worlds\<close>

text \<open>
  A world in which every call succeeds at once, and variants of it: the removal of the
  container fails; the runtime probe fails; the engine never becomes ready; the spider's
  status call throws; the scripted login throws.
\<close>

definition same_host :: "string \<Rightarrow> string option" where
  "same_host u = (if prefix ''https://x/'' u then Some ''https://x'' else
                  if prefix ''https://'' u then Some ''https://other'' else None)"

definition calm_world :: world where
  "calm_world =
     \<lparr>TARGET_URL = ''https://x/'', authenticated = False, secrets_present = False,
      login_cookies = None, docker_info_ok = True, docker_run_ok = True, docker_rm_ok = True,
      date_now = 7, version_probe = (\<lambda>n. Some True), add_rule_ok = True,
      spider_scan = Some ''0'', spider_status = (\<lambda>n. Some ''100''), ajax_scan_ok = True,
      ajax_status = (\<lambda>n. Some ''stopped''),
      core_urls = Some (Some [''https://x/'', ''https://y/'', ''https://x/a'']),
      spider_results = Some (Some [''https://x/a'', ''https://x/b'']),
      origin_of = same_host, write_ok = (\<lambda>n. True), clock = (\<lambda>n. ''T'')\<rparr>"

definition teardown_fails_world :: world where
  "teardown_fails_world = calm_world\<lparr>docker_rm_ok := False\<rparr>"

definition no_docker_world :: world where
  "no_docker_world = calm_world\<lparr>docker_info_ok := False\<rparr>"

definition never_ready_world :: world where
  "never_ready_world = calm_world\<lparr>version_probe := (\<lambda>n. Some False)\<rparr>"

definition spider_throws_world :: world where
  "spider_throws_world = calm_world\<lparr>spider_status := (\<lambda>n. None)\<rparr>"

definition login_throws_world :: world where
  "login_throws_world = calm_world\<lparr>authenticated := True, secrets_present := True\<rparr>"

text \<open>The artifact and the traces these worlds produce.\<close>

definition calm_artifact :: UrlsArtifact where
  "calm_artifact =
     \<lparr>artifact_targetUrl = ''https://x/'', artifact_generatedAt = ''T'',
      total = 4, sameOrigin = 3,
      urls = [\<lparr>entry_url = ''https://x/'', source = ''zap''\<rparr>,
              \<lparr>entry_url = ''https://x/a'', source = ''zap''\<rparr>,
              \<lparr>entry_url = ''https://x/b'', source = ''zap''\<rparr>],
      forms = [], artifact_links = [], error = None\<rparr>"

definition fallback_x :: "string \<Rightarrow> UrlsArtifact" where
  "fallback_x reason =
     \<lparr>artifact_targetUrl = ''https://x/'', artifact_generatedAt = ''T'',
      total = 1, sameOrigin = 1,
      urls = [\<lparr>entry_url = ''https://x/'', source = ''fallback''\<rparr>],
      forms = [], artifact_links = [], error = Some reason\<rparr>"

definition calm_trace :: "bool \<Rightarrow> event list" where
  "calm_trace removed =
     [Exec DockerInfo Ignore True, Exec (DockerRun ''zap-7'') Inherit True,
      Fetch Version, Fetch SpiderScan, Sleep 2000, Fetch (SpiderStatus ''0''),
      Fetch AjaxScan, Sleep 3000, Fetch AjaxStatus, Fetch CoreUrls,
      Fetch (SpiderResults ''0''),
      WriteUrls calm_artifact True,
      Exec (DockerRm ''zap-7'') Inherit removed]"

definition no_docker_trace :: "event list" where
  "no_docker_trace =
     [Exec DockerInfo Ignore False,
      ConsoleWarn ''Docker is not available. Writing fallback URLs only.'',
      WriteUrls (fallback_x ''docker_unavailable'') True]"

definition spider_throws_trace :: "event list" where
  "spider_throws_trace =
     [Exec DockerInfo Ignore True, Exec (DockerRun ''zap-7'') Inherit True,
      Fetch Version, Fetch SpiderScan, Sleep 2000, Fetch (SpiderStatus ''0''),
      ConsoleError External,
      WriteUrls (fallback_x ''zap_failed'') True,
      Exec (DockerRm ''zap-7'') Inherit True]"

definition login_throws_trace :: "event list" where
  "login_throws_trace =
     [BrowserLogin False, ConsoleError External,
      WriteUrls (fallback_x ''unexpected_error'') True]"

section \<open>Properties of flow synthesis\<close>



subsection \<open>Decimal rendering and joining\<close>


lemma digit_char_inj: "d < 10 \<Longrightarrow> e < 10 \<Longrightarrow> digit_char d = digit_char e \<Longrightarrow> d = e"
  using nth_eq_iff_index_eq [of "''0123456789''" d e] by (simp add: digit_char_def)

lemma string_of_nat_nonempty: "string_of_nat n \<noteq> []"
  by (subst string_of_nat.simps) simp

lemma string_of_nat_inj: "string_of_nat n = string_of_nat m \<Longrightarrow> n = m"
proof (induction n arbitrary: m rule: string_of_nat.induct)
  case (1 n)
  show ?case
  proof (cases "n < 10")
    case small: True
    show ?thesis
    proof (cases "m < 10")
      case True
      with small "1.prems" show ?thesis
        by (simp add: string_of_nat.simps [of n] string_of_nat.simps [of m] digit_char_inj)
    next
      case False
      with small "1.prems" string_of_nat_nonempty [of "m div 10"] show ?thesis
        by (simp add: string_of_nat.simps [of n] string_of_nat.simps [of m])
    qed
  next
    case big: False
    show ?thesis
    proof (cases "m < 10")
      case True
      with big "1.prems" string_of_nat_nonempty [of "n div 10"] show ?thesis
        by (simp add: string_of_nat.simps [of n] string_of_nat.simps [of m])
    next
      case False
      with big "1.prems" have eq: "string_of_nat (n div 10) = string_of_nat (m div 10)"
        and d: "digit_char (n mod 10) = digit_char (m mod 10)"
        by (simp_all add: string_of_nat.simps [of n] string_of_nat.simps [of m])
      from "1.IH" [OF big eq] have "n div 10 = m div 10" .
      moreover from d have "n mod 10 = m mod 10"
        by (intro digit_char_inj) simp_all
      ultimately show ?thesis
        by (metis div_mult_mod_eq)
    qed
  qed
qed

lemma string_of_nat_digits: "set (string_of_nat n) \<subseteq> set ''0123456789''"
proof (induction n rule: string_of_nat.induct)
  case (1 n)
  have dig: "digit_char d \<in> set ''0123456789''" if "d < 10" for d
    unfolding digit_char_def using that by (intro nth_mem) simp
  show ?case
  proof (cases "n < 10")
    case True
    then show ?thesis using dig [of n] by (subst string_of_nat.simps) simp
  next
    case False
    then show ?thesis using "1.IH" dig [of "n mod 10"]
      by (subst string_of_nat.simps) simp
  qed
qed

lemma sublist_join: "l \<in> set ls \<Longrightarrow> sublist l (join sep ls)"
proof (induction sep ls rule: join.induct)
  case (3 sep x y ys)
  show ?case
  proof (cases "l = x")
    case True
    then show ?thesis by simp
  next
    case False
    with 3 have "sublist l (join sep (y # ys))" by simp
    then show ?thesis by (simp add: sublist_append)
  qed
qed simp_all

lemma length_mk_nodes: "length (mk_nodes pages) = length pages"
  by (simp add: mk_nodes_def)

lemma mk_nodes_nth: "i < length pages \<Longrightarrow> mk_nodes pages ! i = node_of i (pages ! i)"
  by (simp add: mk_nodes_def nth_enumerate_eq)

lemma mk_nodes_ids: "map node_id (mk_nodes pages) = map (\<lambda>i. ''p'' @ string_of_nat (i + 1)) [0..<length pages]"
  by (rule nth_equalityI) (simp_all add: length_mk_nodes mk_nodes_nth node_of_def)

lemma mk_nodes_urls: "map node_url (mk_nodes pages) = map url pages"
  by (rule nth_equalityI) (simp_all add: length_mk_nodes mk_nodes_nth node_of_def)

lemma distinct_node_ids: "distinct (map node_id (mk_nodes pages))"
  unfolding mk_nodes_ids
  by (auto simp: distinct_map inj_on_def dest: string_of_nat_inj)



lemma set_set_add_all: "set (set_add_all acc xs) = set acc \<union> set xs"
  by (induction xs arbitrary: acc) auto

lemma distinct_set_add_all: "distinct acc \<Longrightarrow> distinct (set_add_all acc xs)"
  by (induction xs arbitrary: acc) auto

lemma remdups_drop_member: "x \<in> set ys \<Longrightarrow> remdups (xs @ x # ys) = remdups (xs @ ys)"
  by (induction xs) auto

lemma set_add_all_first_occurrences:
  "distinct acc \<Longrightarrow> set_add_all acc xs = rev (remdups (rev (acc @ xs)))"
proof (induction xs arbitrary: acc)
  case Nil
  then show ?case by (simp add: distinct_remdups_id)
next
  case (Cons x xs)
  show ?case
  proof (cases "x \<in> set acc")
    case True
    have "remdups (rev xs @ x # rev acc) = remdups (rev xs @ rev acc)"
      using True by (simp add: remdups_drop_member)
    with Cons True show ?thesis by simp
  next
    case False
    with Cons.prems have "distinct (acc @ [x])" by simp
    from Cons.IH [OF this] False show ?thesis by simp
  qed
qed

lemma set_array_from_set: "set (array_from_set xs) = set xs"
  by (simp add: array_from_set_def set_set_add_all)

lemma distinct_array_from_set: "distinct (array_from_set xs)"
  by (simp add: array_from_set_def distinct_set_add_all)

lemma array_from_set_first_occurrences: "array_from_set xs = rev (remdups (rev xs))"
  by (simp add: array_from_set_def set_add_all_first_occurrences)

lemma length_array_from_set: "length (array_from_set xs) = card (set xs)"
  using distinct_card [OF distinct_array_from_set, of xs] by (simp add: set_array_from_set)

lemma push_links_eq:
  "push_links m fromId ls es =
     es @ map (\<lambda>link. edge_text fromId (the (m link))) (filter (\<lambda>link. truthy (m link)) ls)"
  by (induction ls arbitrary: es) simp_all

lemma push_pages_eq:
  "push_pages m ps es =
     es @ concat (map (\<lambda>page. if truthy (m (url page))
                         then map (\<lambda>link. edge_text (the (m (url page))) (the (m link)))
                                (filter (\<lambda>link. truthy (m link)) (links_of page))
                         else []) ps)"
  by (induction ps arbitrary: es) (simp_all add: push_links_eq)

lemma map_entries_snoc:
  "map_entries m (ns @ [n]) = (map_entries m ns)(node_url n \<mapsto> node_id n)"
  by (induction ns arbitrary: m) simp_all

lemma mk_nodes_snoc: "mk_nodes (ps @ [p]) = mk_nodes ps @ [node_of (length ps) p]"
  by (simp add: mk_nodes_def enumerate_append_eq)

lemma urlToId_snoc:
  "urlToId (mk_nodes (ps @ [p])) u =
     (if url p = u then Some (''p'' @ string_of_nat (length ps + 1)) else urlToId (mk_nodes ps) u)"
  by (simp add: urlToId_def mk_nodes_snoc map_entries_snoc node_of_def)

lemma last_occurrence_snoc:
  "last_occurrence (ps @ [p]) k \<longleftrightarrow>
     (k = length ps \<or> (last_occurrence ps k \<and> url (ps ! k) \<noteq> url p))"
  by (auto simp: last_occurrence_def nth_append)

lemma urlToId_Some:
  "urlToId (mk_nodes pages) u = Some v \<longleftrightarrow>
     (\<exists>k. last_occurrence pages k \<and> url (pages ! k) = u \<and> v = ''p'' @ string_of_nat (k + 1))"
proof (induction pages arbitrary: v rule: rev_induct)
  case Nil
  then show ?case by (simp add: urlToId_def mk_nodes_def last_occurrence_def)
next
  case (snoc p ps)
  show ?case
  proof (cases "url p = u")
    case True
    have "last_occurrence (ps @ [p]) k \<and> url ((ps @ [p]) ! k) = u \<longleftrightarrow> k = length ps" for k
      using True by (auto simp: last_occurrence_snoc nth_append last_occurrence_def)
    then have "(\<exists>k. last_occurrence (ps @ [p]) k \<and> url ((ps @ [p]) ! k) = u \<and> v = ''p'' @ string_of_nat (k + 1))
        \<longleftrightarrow> v = ''p'' @ string_of_nat (length ps + 1)"
      by (metis (no_types, lifting))
    then show ?thesis using True by (auto simp: urlToId_snoc)
  next
    case False
    have "last_occurrence (ps @ [p]) k \<and> url ((ps @ [p]) ! k) = u \<longleftrightarrow>
          last_occurrence ps k \<and> url (ps ! k) = u" for k
      using False by (auto simp: last_occurrence_snoc nth_append last_occurrence_def)
    then have "(\<exists>k. last_occurrence (ps @ [p]) k \<and> url ((ps @ [p]) ! k) = u \<and> v = ''p'' @ string_of_nat (k + 1))
        \<longleftrightarrow> (\<exists>k. last_occurrence ps k \<and> url (ps ! k) = u \<and> v = ''p'' @ string_of_nat (k + 1))"
      by (metis (no_types, lifting))
    then show ?thesis using False snoc.IH [of v] by (simp add: urlToId_snoc)
  qed
qed

lemma edge_text_source:
  assumes "CHR '' '' \<notin> set f" "CHR '' '' \<notin> set f'" "edge_text f t = edge_text f' t'"
  shows "f = f'"
proof -
  have "takeWhile (\<lambda>c. c \<noteq> CHR '' '') (edge_text g s) = g" if "CHR '' '' \<notin> set g" for g s
    using that by (auto simp: edge_text_def takeWhile_tail takeWhile_eq_all_conv)
  with assms show ?thesis by metis
qed

lemma edge_text_target:
  assumes "CHR '' '' \<notin> set t" "CHR '' '' \<notin> set t'" "edge_text f t = edge_text f' t'"
  shows "t = t'"
proof -
  have "takeWhile (\<lambda>c. c \<noteq> CHR '' '') (rev (edge_text g s)) = rev s" if "CHR '' '' \<notin> set s" for g s
    using that by (auto simp: edge_text_def takeWhile_tail takeWhile_eq_all_conv)
  with assms have "rev t = rev t'" by metis
  then show ?thesis by simp
qed

lemma pid_no_space: "CHR '' '' \<notin> set (''p'' @ string_of_nat n)"
  using string_of_nat_digits [of n] by auto




lemmas eval_defs = buildFlowArtifacts_def mk_nodes_def node_of_def enumerate_simps
  string_of_nat.simps digit_char_def truthy_def flag_def title_or_empty_def url_and_title_def trim_def
  is_space_def replace_quotes_def limitedEdges_def all_edges_def urlToId_def edge_text_def
  array_from_set_def links_of_def isLoginPage_def isCheckoutPage_def isAccountPage_def
  isSearchPage_def hasKeyword_def normalize_str_def toLowerCase_char_def loginPages_def
  checkoutPages_def accountPages_def searchPages_def loginSet_def checkoutSet_def accountSet_def
  publicBlock_def authBlock_def checkoutBlock_def accountBlock_def edgeLines_def mermaidLines_def
  node_line_def mk_page_def url_tagged_def group_def last_occurrence_def
  sublist_code prefix_code

lemma mem_all_edges:
  "e \<in> set (all_edges pages) \<longleftrightarrow>
     (\<exists>p \<in> set pages. \<exists>link \<in> set (links_of p). \<exists>f t.
        urlToId (mk_nodes pages) (url p) = Some f \<and> urlToId (mk_nodes pages) link = Some t \<and>
        e = edge_text f t)"
proof -
  have "v \<noteq> []" if "urlToId (mk_nodes pages) u = Some v" for u v
    using that unfolding urlToId_Some by auto
  then have nonempty: "truthy (urlToId (mk_nodes pages) u) \<longleftrightarrow> urlToId (mk_nodes pages) u \<noteq> None" for u
    by (cases "urlToId (mk_nodes pages) u") (auto simp: truthy_def)
  show ?thesis (is "?L \<longleftrightarrow> ?R")
  proof
    assume ?L
    then show ?R
      unfolding all_edges_def push_pages_eq by (auto simp: nonempty split: if_splits) blast
  next
    assume ?R
    then obtain p link f t where "p \<in> set pages" "link \<in> set (links_of p)"
      "urlToId (mk_nodes pages) (url p) = Some f" "urlToId (mk_nodes pages) link = Some t"
      "e = edge_text f t"
      by auto
    then show ?L
      unfolding all_edges_def push_pages_eq
      by (auto simp: nonempty intro!: bexI [of _ p] image_eqI [of _ _ link])
  qed
qed

lemma edge_endpoints_last:
  assumes "e \<in> set (all_edges pages)"
  shows "\<exists>a b. last_occurrence pages a \<and> last_occurrence pages b \<and>
           e = edge_text (''p'' @ string_of_nat (a + 1)) (''p'' @ string_of_nat (b + 1))"
proof -
  from assms [unfolded mem_all_edges] obtain p link f t where
        "p \<in> set pages" and f: "urlToId (mk_nodes pages) (url p) = Some f"
    and t: "urlToId (mk_nodes pages) link = Some t" and e: "e = edge_text f t"
    by blast
  from f [unfolded urlToId_Some] obtain a
    where a: "last_occurrence pages a" "f = ''p'' @ string_of_nat (a + 1)"
    by blast
  from t [unfolded urlToId_Some] obtain b
    where b: "last_occurrence pages b" "t = ''p'' @ string_of_nat (b + 1)"
    by blast
  from a b e show ?thesis by blast
qed

lemma urlToId_node:
  assumes "urlToId (mk_nodes pages) u = Some v"
  shows "\<exists>n \<in> set (mk_nodes pages). node_url n = u \<and> node_id n = v"
proof -
  from assms [unfolded urlToId_Some last_occurrence_def] obtain k
    where k: "k < length pages" "url (pages ! k) = u" "v = ''p'' @ string_of_nat (k + 1)"
    by blast
  then have "node_url (mk_nodes pages ! k) = u" "node_id (mk_nodes pages ! k) = v"
    by (simp_all add: mk_nodes_nth node_of_def)
  moreover from k have "mk_nodes pages ! k \<in> set (mk_nodes pages)"
    by (intro nth_mem) (simp add: length_mk_nodes)
  ultimately show ?thesis by blast
qed

lemma earlier_duplicate_not_last:
  assumes "i < j" "j < length pages" "url (pages ! i) = url (pages ! j)"
  shows "\<not> last_occurrence pages i"
proof -
  have "pages ! j = drop (Suc i) pages ! (j - Suc i)" using assms by simp
  moreover have "j - Suc i < length (drop (Suc i) pages)" using assms by simp
  ultimately have "pages ! j \<in> set (drop (Suc i) pages)" by (metis nth_mem)
  then show ?thesis using assms by (auto simp: last_occurrence_def)
qed

lemma exists_last_occurrence:
  assumes "i < length pages"
  shows "\<exists>k. last_occurrence pages k \<and> i \<le> k \<and> url (pages ! k) = url (pages ! i)"
  using assms
proof (induction pages rule: rev_induct)
  case Nil
  then show ?case by simp
next
  case (snoc p ps)
  show ?case
  proof (cases "url p = url ((ps @ [p]) ! i)")
    case True
    with snoc.prems show ?thesis
      by (intro exI [of _ "length ps"]) (simp add: last_occurrence_snoc)
  next
    case False
    with snoc.prems have i: "i < length ps" by (cases "i = length ps") auto
    with snoc.IH obtain k where "last_occurrence ps k" "i \<le> k" "url (ps ! k) = url (ps ! i)"
      by blast
    with False i show ?thesis
      by (intro exI [of _ k]) (auto simp: last_occurrence_snoc nth_append last_occurrence_def)
  qed
qed



lemma url_in_tag_set:
  "u \<in> set (map url (filter tag pages)) \<longleftrightarrow> url_tagged tag pages u"
  by (auto simp: url_tagged_def list_ex_iff)

lemma filter_nonempty_list_ex: "filter tag pages \<noteq> [] \<longleftrightarrow> list_ex tag pages"
  by (simp add: filter_empty_conv list_ex_iff)

lemma url_tagged_distinct:
  assumes "distinct (map url pages)" "i < length pages"
  shows "url_tagged tag pages (url (pages ! i)) \<longleftrightarrow> tag (pages ! i)"
proof
  assume "url_tagged tag pages (url (pages ! i))"
  then obtain p where p: "p \<in> set pages" "tag p" "url p = url (pages ! i)"
    by (auto simp: url_tagged_def list_ex_iff)
  from assms have "inj_on url (set pages)" by (simp add: distinct_map)
  with p assms(2) have "p = pages ! i" by (auto dest: inj_onD)
  with p show "tag (pages ! i)" by simp
next
  assume "tag (pages ! i)"
  with assms(2) show "url_tagged tag pages (url (pages ! i))"
    by (auto simp: url_tagged_def list_ex_iff)
qed

lemma mermaidLines_groups:
  "mermaidLines pages =
     [''flowchart LR''] @
     group ''Public''
       (filter (\<lambda>n. \<not> url_tagged isLoginPage pages (node_url n) \<and>
                     \<not> url_tagged isCheckoutPage pages (node_url n) \<and>
                     \<not> url_tagged isAccountPage pages (node_url n)) (mk_nodes pages)) @
     (if list_ex isLoginPage pages
      then group ''Auth'' (filter (\<lambda>n. url_tagged isLoginPage pages (node_url n)) (mk_nodes pages))
      else []) @
     (if list_ex isCheckoutPage pages
      then group ''Checkout'' (filter (\<lambda>n. url_tagged isCheckoutPage pages (node_url n)) (mk_nodes pages))
      else []) @
     (if list_ex isAccountPage pages
      then group ''Account'' (filter (\<lambda>n. url_tagged isAccountPage pages (node_url n)) (mk_nodes pages))
      else []) @
     map (\<lambda>e. ''  '' @ e) (limitedEdges pages)"
  by (simp add: mermaidLines_def publicBlock_def authBlock_def checkoutBlock_def accountBlock_def
      edgeLines_def group_def loginSet_def checkoutSet_def accountSet_def loginPages_def
      checkoutPages_def accountPages_def url_in_tag_set filter_nonempty_list_ex
      del: set_map)

subsection \<open>The claims about flow synthesis\<close>

text \<open>
  Claim C5. For every input list of pages, synthesis produces exactly one node per page, in
  input order (the node at position \<open>i\<close> carries the url of page \<open>i\<close> and the id
  \<open>p(i+1)\<close>), reports a node count equal to the number of pages, and all node ids are
  pairwise distinct.
\<close>

theorem nodes_one_per_page_distinct_ids:
  "nodeCount (flowMeta (buildFlowArtifacts target pages uxCounts generated)) = length pages \<and>
   length (nodes (buildFlowArtifacts target pages uxCounts generated)) = length pages \<and>
   map node_url (nodes (buildFlowArtifacts target pages uxCounts generated)) = map url pages \<and>
   map node_id (nodes (buildFlowArtifacts target pages uxCounts generated)) = map (\<lambda>i. ''p'' @ string_of_nat (i + 1)) [0..<length pages] \<and>
   distinct (map node_id (nodes (buildFlowArtifacts target pages uxCounts generated)))"
proof -
  have sel: "nodes (buildFlowArtifacts target pages uxCounts generated) = mk_nodes pages"
    "nodeCount (flowMeta (buildFlowArtifacts target pages uxCounts generated)) = length (mk_nodes pages)"
    by (simp_all add: buildFlowArtifacts_def)
  show ?thesis
    unfolding sel
    by (intro conjI length_mk_nodes mk_nodes_urls mk_nodes_ids distinct_node_ids)
qed

text \<open>
  Claim C8. Synthesis is a total function; on the empty page list it yields a node count
  of 0, an edge count of 0, and a summary containing the text \<open>Pages discovered: 0\<close>.
\<close>

theorem empty_pages_degenerate_output:
  "nodeCount (flowMeta (buildFlowArtifacts target [] uxCounts generated)) = 0 \<and>
   edgeCount (flowMeta (buildFlowArtifacts target [] uxCounts generated)) = 0 \<and>
   sublist ''Pages discovered: 0'' (summary (buildFlowArtifacts target [] uxCounts generated))"
proof -
  have "''- Pages discovered: 0'' \<in> set (summaryLines target [] uxCounts generated)"
    by (simp add: summaryLines_def siteMapLines_def string_of_nat.simps digit_char_def)
  then have "sublist ''- Pages discovered: 0'' (summary (buildFlowArtifacts target [] uxCounts generated))"
    by (simp add: buildFlowArtifacts_def sublist_join)
  moreover have "sublist ''Pages discovered: 0'' ''- Pages discovered: 0''"
    by (simp add: sublist_code prefix_code)
  ultimately have "sublist ''Pages discovered: 0'' (summary (buildFlowArtifacts target [] uxCounts generated))"
    by (rule sublist_order.order_trans [rotated])
  then show ?thesis
    by (simp add: buildFlowArtifacts_def mk_nodes_def limitedEdges_def all_edges_def array_from_set_def enumerate_simps)
qed



text \<open>
  Claim C6, as amended. The edge list has no duplicates; its length (and the reported edge
  count) is the minimum of 120 and the number of distinct edge strings pushed by the loops;
  it consists of the first 120 distinct edges in the order of their first occurrence, the
  rest being dropped by a total function; and every edge joins the ids of two nodes of
  the call, the first carrying the url of a page and the second a url equal to one of that
  page's links. The second node may be the page's own node: a page that links to its own
  url yields a self-loop edge.
\<close>

theorem edges_deduplicated_and_capped:
  "distinct (edges (buildFlowArtifacts target pages uxCounts generated)) \<and>
   length (edges (buildFlowArtifacts target pages uxCounts generated)) = min 120 (card (set (all_edges pages))) \<and>
   edgeCount (flowMeta (buildFlowArtifacts target pages uxCounts generated)) = min 120 (card (set (all_edges pages))) \<and>
   edges (buildFlowArtifacts target pages uxCounts generated) = take 120 (rev (remdups (rev (all_edges pages)))) \<and>
   (\<forall>e \<in> set (edges (buildFlowArtifacts target pages uxCounts generated)).
      \<exists>p \<in> set pages. \<exists>link \<in> set (links_of p).
      \<exists>m \<in> set (nodes (buildFlowArtifacts target pages uxCounts generated)).
      \<exists>n \<in> set (nodes (buildFlowArtifacts target pages uxCounts generated)).
        node_url m = url p \<and> node_url n = link \<and> e = edge_text (node_id m) (node_id n))"
proof -
  have sel: "edges (buildFlowArtifacts target pages uxCounts generated) = limitedEdges pages"
    "edgeCount (flowMeta (buildFlowArtifacts target pages uxCounts generated)) = length (limitedEdges pages)"
    "nodes (buildFlowArtifacts target pages uxCounts generated) = mk_nodes pages"
    by (simp_all add: buildFlowArtifacts_def)
  have d: "distinct (limitedEdges pages)"
    by (simp add: limitedEdges_def distinct_array_from_set)
  have l: "length (limitedEdges pages) = min 120 (card (set (all_edges pages)))"
    by (simp add: limitedEdges_def length_array_from_set min.commute)
  have o: "limitedEdges pages = take 120 (rev (remdups (rev (all_edges pages))))"
    by (simp add: limitedEdges_def array_from_set_first_occurrences)
  have m: "\<exists>p \<in> set pages. \<exists>link \<in> set (links_of p). \<exists>m \<in> set (mk_nodes pages).
      \<exists>n \<in> set (mk_nodes pages).
        node_url m = url p \<and> node_url n = link \<and> e = edge_text (node_id m) (node_id n)"
    if "e \<in> set (limitedEdges pages)" for e
  proof -
    from that have "e \<in> set (all_edges pages)"
      by (auto simp: limitedEdges_def set_array_from_set dest: in_set_takeD)
    from this [unfolded mem_all_edges] obtain p link f t
      where p: "p \<in> set pages" "link \<in> set (links_of p)"
      and f: "urlToId (mk_nodes pages) (url p) = Some f"
      and t: "urlToId (mk_nodes pages) link = Some t" and e: "e = edge_text f t"
      by blast
    from urlToId_node [OF f] urlToId_node [OF t] p e show ?thesis by blast
  qed
  show ?thesis unfolding sel using d l o m by blast
qed

text \<open>
  Claim C6 as stated requires the link to equal \<^emph>\<open>another\<close> node's url. A single page
  linking to itself has no other node, and still yields the edge \<open>p1 --> p1\<close>.
\<close>

theorem self_link_emits_edge:
  "length (nodes (buildFlowArtifacts ''https://x/'' self_link_pages None [])) = 1 \<and>
   edges (buildFlowArtifacts ''https://x/'' self_link_pages None []) = [''p1 --> p1'']"
  by (simp add: self_link_pages_def eval_defs)

theorem edges_deduplicated_and_capped_witness:
  "''p1 --> p1'' \<in> set (edges (buildFlowArtifacts ''https://x/'' self_link_pages None [])) \<and>
   (\<exists>p \<in> set self_link_pages. \<exists>link \<in> set (links_of p).
    \<exists>m \<in> set (nodes (buildFlowArtifacts ''https://x/'' self_link_pages None [])).
    \<exists>n \<in> set (nodes (buildFlowArtifacts ''https://x/'' self_link_pages None [])).
      node_url m = url p \<and> node_url n = link \<and> ''p1 --> p1'' = edge_text (node_id m) (node_id n))"
proof -
  have mem: "''p1 --> p1'' \<in> set (edges (buildFlowArtifacts ''https://x/'' self_link_pages None []))"
    by (simp add: self_link_pages_def eval_defs)
  with edges_deduplicated_and_capped [of "''https://x/''" self_link_pages None "[]"]
  show ?thesis by blast
qed


text \<open>
  Claim C7, as amended. The diagram source is the header, then the Public block, then the
  Auth, Checkout and Account blocks (each present when some page carries the tag), then one
  line per deduplicated edge. Membership of a node in a block is decided by its url: a node
  is in Auth (Checkout, Account) when some page with the same url carries the tag, and in
  Public when no page with its url carries any of the three tags. Node ids are distinct, so
  a node occurs once in every block it belongs to, and the edges are distinct. When the
  urls of the pages are pairwise distinct, membership by url is the page's own tag.
\<close>

theorem diagram_groups_by_url:
  "mermaid (buildFlowArtifacts target pages uxCounts generated) =
     join [CHR 0x0A]
      ([''flowchart LR''] @
       group ''Public''
         (filter (\<lambda>n. \<not> url_tagged isLoginPage pages (node_url n) \<and>
                       \<not> url_tagged isCheckoutPage pages (node_url n) \<and>
                       \<not> url_tagged isAccountPage pages (node_url n))
            (nodes (buildFlowArtifacts target pages uxCounts generated))) @
       (if list_ex isLoginPage pages
        then group ''Auth'' (filter (\<lambda>n. url_tagged isLoginPage pages (node_url n))
               (nodes (buildFlowArtifacts target pages uxCounts generated)))
        else []) @
       (if list_ex isCheckoutPage pages
        then group ''Checkout'' (filter (\<lambda>n. url_tagged isCheckoutPage pages (node_url n))
               (nodes (buildFlowArtifacts target pages uxCounts generated)))
        else []) @
       (if list_ex isAccountPage pages
        then group ''Account'' (filter (\<lambda>n. url_tagged isAccountPage pages (node_url n))
               (nodes (buildFlowArtifacts target pages uxCounts generated)))
        else []) @
       map (\<lambda>e. ''  '' @ e) (edges (buildFlowArtifacts target pages uxCounts generated))) \<and>
   distinct (map node_id (nodes (buildFlowArtifacts target pages uxCounts generated))) \<and>
   distinct (edges (buildFlowArtifacts target pages uxCounts generated)) \<and>
   (distinct (map url pages) \<longrightarrow>
      (\<forall>i < length pages.
         (url_tagged isLoginPage pages (node_url (nodes (buildFlowArtifacts target pages uxCounts generated) ! i))
            \<longleftrightarrow> isLoginPage (pages ! i)) \<and>
         (url_tagged isCheckoutPage pages (node_url (nodes (buildFlowArtifacts target pages uxCounts generated) ! i))
            \<longleftrightarrow> isCheckoutPage (pages ! i)) \<and>
         (url_tagged isAccountPage pages (node_url (nodes (buildFlowArtifacts target pages uxCounts generated) ! i))
            \<longleftrightarrow> isAccountPage (pages ! i))))"
  (is "?G \<and> ?N \<and> ?E \<and> ?T")
proof -
  have sel: "edges (buildFlowArtifacts target pages uxCounts generated) = limitedEdges pages"
    "nodes (buildFlowArtifacts target pages uxCounts generated) = mk_nodes pages"
    "mermaid (buildFlowArtifacts target pages uxCounts generated) = join [CHR 0x0A] (mermaidLines pages)"
    by (simp_all add: buildFlowArtifacts_def)
  have d: "distinct (limitedEdges pages)"
    by (simp add: limitedEdges_def distinct_array_from_set)
  have u: "node_url (mk_nodes pages ! i) = url (pages ! i)" if "i < length pages" for i
    using that by (simp add: mk_nodes_nth node_of_def)
  have ?G unfolding sel by (simp only: mermaidLines_groups)
  moreover have ?N unfolding sel by (rule distinct_node_ids)
  moreover have ?E unfolding sel by (rule d)
  moreover have ?T unfolding sel by (simp add: u url_tagged_distinct)
  ultimately show ?thesis by (intro conjI)
qed

text \<open>
  Claim C7 as stated places pages tagged with none of Login, Checkout, Account in the
  Public block and only Login-tagged pages in Auth. Of two pages sharing a url, the second
  carries no tag, yet its node \<open>p2\<close> is rendered in Auth and the Public block is empty.
\<close>

theorem shared_url_page_rendered_in_auth:
  "\<not> isLoginPage (duplicate_pages ! 1) \<and> \<not> isCheckoutPage (duplicate_pages ! 1) \<and>
   \<not> isAccountPage (duplicate_pages ! 1) \<and>
   mermaid (buildFlowArtifacts ''https://x/a'' duplicate_pages None []) =
     join [CHR 0x0A]
       [''flowchart LR'',
        ''  subgraph Public'',
        ''  end'',
        ''  subgraph Auth'',
        ''    p1['' @ [CHR 0x22] @ ''https://x/a'' @ [CHR 0x22] @ '']'',
        ''    p2['' @ [CHR 0x22] @ ''https://x/a'' @ [CHR 0x22] @ '']'',
        ''  end'',
        ''  p2 --> p2'']"
  by (simp add: duplicate_pages_def eval_defs)

theorem diagram_groups_by_url_witness:
  "distinct (map url scenario_pages) \<and> (1::nat) < length scenario_pages \<and>
   isLoginPage (scenario_pages ! 1) \<and>
   url_tagged isLoginPage scenario_pages
     (node_url (nodes (buildFlowArtifacts ''https://x/'' scenario_pages None []) ! 1)) \<and>
   mermaid (buildFlowArtifacts ''https://x/'' scenario_pages None []) =
     join [CHR 0x0A]
       [''flowchart LR'',
        ''  subgraph Public'',
        ''    p1['' @ [CHR 0x22] @ ''Home'' @ [CHR 0x22] @ '']'',
        ''  end'',
        ''  subgraph Auth'',
        ''    p2['' @ [CHR 0x22] @ ''Login'' @ [CHR 0x22] @ '']'',
        ''  end'',
        ''  p1 --> p2'']"
proof -
  have d: "distinct (map url scenario_pages)" and l: "(1::nat) < length scenario_pages"
    and t: "isLoginPage (scenario_pages ! 1)"
    by (simp_all add: scenario_pages_def mk_page_def isLoginPage_def flag_def)
  have diagram: "mermaid (buildFlowArtifacts ''https://x/'' scenario_pages None []) =
     join [CHR 0x0A]
       [''flowchart LR'',
        ''  subgraph Public'',
        ''    p1['' @ [CHR 0x22] @ ''Home'' @ [CHR 0x22] @ '']'',
        ''  end'',
        ''  subgraph Auth'',
        ''    p2['' @ [CHR 0x22] @ ''Login'' @ [CHR 0x22] @ '']'',
        ''  end'',
        ''  p1 --> p2'']"
    by (simp add: scenario_pages_def eval_defs)
  from diagram_groups_by_url [of "''https://x/''" scenario_pages None "[]"] d l t
  have "url_tagged isLoginPage scenario_pages
     (node_url (nodes (buildFlowArtifacts ''https://x/'' scenario_pages None []) ! 1))"
    by blast
  with d l t diagram show ?thesis by (intro conjI)
qed

text \<open>
  Claim C9. A page whose \<open>hasPasswordInput\<close> flag is true is Login-tagged whatever its url
  and title are: it is among the login pages counted in the summary, the diagram has an
  Auth block, and the page's node is one of the nodes of that block.
\<close>

theorem password_input_is_login_tagged:
  assumes "i < length pages" and "hasPasswordInput (pages ! i) = Some True"
  shows "isLoginPage (pages ! i) \<and>
    pages ! i \<in> set (loginPages pages) \<and>
    (''- Login-related pages: '' @ string_of_nat (length (loginPages pages)))
       \<in> set (summaryLines target pages uxCounts generated) \<and>
    mermaid (buildFlowArtifacts target pages uxCounts generated) =
      join [CHR 0x0A]
        ([''flowchart LR''] @ publicBlock pages @
         group ''Auth'' (filter (\<lambda>n. url_tagged isLoginPage pages (node_url n))
                          (nodes (buildFlowArtifacts target pages uxCounts generated))) @
         checkoutBlock pages @ accountBlock pages @ edgeLines pages) \<and>
    nodes (buildFlowArtifacts target pages uxCounts generated) ! i
       \<in> set (filter (\<lambda>n. url_tagged isLoginPage pages (node_url n))
                 (nodes (buildFlowArtifacts target pages uxCounts generated))) \<and>
    node_id (nodes (buildFlowArtifacts target pages uxCounts generated) ! i) = ''p'' @ string_of_nat (i + 1)"
  (is "?L \<and> ?M \<and> ?S \<and> ?G \<and> ?A \<and> ?I")
proof -
  have sel: "nodes (buildFlowArtifacts target pages uxCounts generated) = mk_nodes pages"
    "mermaid (buildFlowArtifacts target pages uxCounts generated) = join [CHR 0x0A] (mermaidLines pages)"
    by (simp_all add: buildFlowArtifacts_def)
  from assms have login: "isLoginPage (pages ! i)"
    by (simp add: isLoginPage_def flag_def)
  with assms have mem: "pages ! i \<in> set (loginPages pages)"
    by (simp add: loginPages_def)
  then have ex: "list_ex isLoginPage pages" "loginPages pages \<noteq> []"
    by (auto simp: loginPages_def list_ex_iff filter_empty_conv)
  have line: "(''- Login-related pages: '' @ string_of_nat (length (loginPages pages)))
       \<in> set (summaryLines target pages uxCounts generated)"
    by (simp add: summaryLines_def siteMapLines_def)
  have auth: "authBlock pages =
      group ''Auth'' (filter (\<lambda>n. url_tagged isLoginPage pages (node_url n)) (mk_nodes pages))"
    using ex by (simp add: authBlock_def group_def loginSet_def loginPages_def url_in_tag_set del: set_map)
  have tagged: "url_tagged isLoginPage pages (node_url (mk_nodes pages ! i))"
    using assms(1) login by (auto simp: mk_nodes_nth node_of_def url_tagged_def list_ex_iff)
  have node: "mk_nodes pages ! i \<in> set (filter (\<lambda>n. url_tagged isLoginPage pages (node_url n)) (mk_nodes pages))"
    using assms(1) tagged by (simp add: length_mk_nodes)
  have ident: "node_id (mk_nodes pages ! i) = ''p'' @ string_of_nat (i + 1)"
    using assms(1) by (simp add: mk_nodes_nth node_of_def)
  have ?G unfolding sel by (simp only: mermaidLines_def auth)
  moreover have ?A unfolding sel by (rule node)
  moreover have ?I unfolding sel by (rule ident)
  ultimately show ?thesis using login mem line by (intro conjI)
qed

theorem password_input_is_login_tagged_witness:
  "(0::nat) < length password_pages \<and> hasPasswordInput (password_pages ! 0) = Some True \<and>
   \<not> hasKeyword (url (password_pages ! 0)) [''login'', ''signin'', ''sign-in''] \<and>
   isLoginPage (password_pages ! 0) \<and>
   password_pages ! 0 \<in> set (loginPages password_pages) \<and>
   mermaid (buildFlowArtifacts ''https://x/a'' password_pages None []) =
     join [CHR 0x0A]
       [''flowchart LR'',
        ''  subgraph Public'',
        ''  end'',
        ''  subgraph Auth'',
        ''    p1['' @ [CHR 0x22] @ ''Welcome'' @ [CHR 0x22] @ '']'',
        ''  end'']"
proof -
  have l: "(0::nat) < length password_pages"
    and f: "hasPasswordInput (password_pages ! 0) = Some True"
    by (simp_all add: password_pages_def mk_page_def)
  have k: "\<not> hasKeyword (url (password_pages ! 0)) [''login'', ''signin'', ''sign-in'']"
    by (simp add: password_pages_def mk_page_def hasKeyword_def normalize_str_def
        toLowerCase_char_def sublist_code prefix_code)
  have diagram: "mermaid (buildFlowArtifacts ''https://x/a'' password_pages None []) =
     join [CHR 0x0A]
       [''flowchart LR'',
        ''  subgraph Public'',
        ''  end'',
        ''  subgraph Auth'',
        ''    p1['' @ [CHR 0x22] @ ''Welcome'' @ [CHR 0x22] @ '']'',
        ''  end'']"
    by (simp add: password_pages_def eval_defs)
  from password_input_is_login_tagged [OF l f, of "''https://x/a''" None "[]"]
  have "isLoginPage (password_pages ! 0)" "password_pages ! 0 \<in> set (loginPages password_pages)"
    by blast+
  with l f k diagram show ?thesis by (intro conjI)
qed

text \<open>
  Claim C10. When an earlier page \<open>i\<close> and a later page \<open>j\<close> share a url, every page still
  has its own node, the url-to-id lookup maps the url to the id of its last occurrence
  \<open>k > i\<close>, both ends of every edge are ids of last occurrences, and the id of page \<open>i\<close>
  is neither the source nor the target of any edge.
\<close>

theorem duplicate_url_last_occurrence_wins:
  assumes "i < j" and "j < length pages" and "url (pages ! i) = url (pages ! j)"
  shows "nodeCount (flowMeta (buildFlowArtifacts target pages uxCounts generated)) = length pages \<and>
    length (nodes (buildFlowArtifacts target pages uxCounts generated)) = length pages \<and>
    (\<exists>k. i < k \<and> last_occurrence pages k \<and> url (pages ! k) = url (pages ! i) \<and>
         urlToId (nodes (buildFlowArtifacts target pages uxCounts generated)) (url (pages ! i)) =
           Some (''p'' @ string_of_nat (k + 1))) \<and>
    (\<forall>e \<in> set (edges (buildFlowArtifacts target pages uxCounts generated)).
       \<exists>a b. last_occurrence pages a \<and> last_occurrence pages b \<and>
         e = edge_text (''p'' @ string_of_nat (a + 1)) (''p'' @ string_of_nat (b + 1))) \<and>
    (\<forall>e \<in> set (edges (buildFlowArtifacts target pages uxCounts generated)). \<forall>x.
       e \<noteq> edge_text (''p'' @ string_of_nat (i + 1)) x \<and>
       e \<noteq> edge_text x (''p'' @ string_of_nat (i + 1)))"
  (is "?C \<and> ?N \<and> ?U \<and> ?L \<and> ?A")
proof -
  have sel: "edges (buildFlowArtifacts target pages uxCounts generated) = limitedEdges pages"
    "nodes (buildFlowArtifacts target pages uxCounts generated) = mk_nodes pages"
    "nodeCount (flowMeta (buildFlowArtifacts target pages uxCounts generated)) = length (mk_nodes pages)"
    by (simp_all add: buildFlowArtifacts_def)
  have sub: "e \<in> set (all_edges pages)" if "e \<in> set (limitedEdges pages)" for e
    using that by (auto simp: limitedEdges_def set_array_from_set dest: in_set_takeD)
  from assms have i: "i < length pages" by simp
  have not_last: "\<not> last_occurrence pages i"
    using assms by (rule earlier_duplicate_not_last)
  from exists_last_occurrence [OF i] obtain k
    where k: "last_occurrence pages k" "i \<le> k" "url (pages ! k) = url (pages ! i)"
    by blast
  with not_last have "i < k" by (cases "i = k") auto
  moreover from k have "urlToId (mk_nodes pages) (url (pages ! i)) = Some (''p'' @ string_of_nat (k + 1))"
    unfolding urlToId_Some by blast
  ultimately have lookup: "\<exists>k. i < k \<and> last_occurrence pages k \<and> url (pages ! k) = url (pages ! i) \<and>
         urlToId (mk_nodes pages) (url (pages ! i)) = Some (''p'' @ string_of_nat (k + 1))"
    using k by blast
  have ends: "\<exists>a b. last_occurrence pages a \<and> last_occurrence pages b \<and>
         e = edge_text (''p'' @ string_of_nat (a + 1)) (''p'' @ string_of_nat (b + 1))"
    if "e \<in> set (limitedEdges pages)" for e
    using edge_endpoints_last [OF sub [OF that]] .
  have absent: "e \<noteq> edge_text (''p'' @ string_of_nat (i + 1)) x \<and>
       e \<noteq> edge_text x (''p'' @ string_of_nat (i + 1))"
    if "e \<in> set (limitedEdges pages)" for e x
  proof -
    from ends [OF that] obtain a b where ab: "last_occurrence pages a" "last_occurrence pages b"
      "e = edge_text (''p'' @ string_of_nat (a + 1)) (''p'' @ string_of_nat (b + 1))"
      by blast
    from ab not_last have ne: "a \<noteq> i" "b \<noteq> i" by auto
    have "e \<noteq> edge_text (''p'' @ string_of_nat (i + 1)) x"
    proof
      assume "e = edge_text (''p'' @ string_of_nat (i + 1)) x"
      with ab(3) have "''p'' @ string_of_nat (a + 1) = ''p'' @ string_of_nat (i + 1)"
        using edge_text_source [OF pid_no_space pid_no_space] by metis
      then have "a = i" by (auto dest: string_of_nat_inj)
      with ne show False by simp
    qed
    moreover have "e \<noteq> edge_text x (''p'' @ string_of_nat (i + 1))"
    proof
      assume "e = edge_text x (''p'' @ string_of_nat (i + 1))"
      with ab(3) have "''p'' @ string_of_nat (b + 1) = ''p'' @ string_of_nat (i + 1)"
        using edge_text_target [OF pid_no_space pid_no_space] by metis
      then have "b = i" by (auto dest: string_of_nat_inj)
      with ne show False by simp
    qed
    ultimately show ?thesis by simp
  qed
  have ?C ?N unfolding sel by (rule length_mk_nodes)+
  moreover have ?U unfolding sel by (rule lookup)
  moreover have ?L unfolding sel using ends by blast
  moreover have ?A unfolding sel using absent by blast
  ultimately show ?thesis by (intro conjI)
qed

theorem duplicate_url_last_occurrence_wins_witness:
  "(0::nat) < 1 \<and> 1 < length duplicate_pages \<and>
   url (duplicate_pages ! 0) = url (duplicate_pages ! 1) \<and>
   nodeCount (flowMeta (buildFlowArtifacts ''https://x/a'' duplicate_pages None [])) = length duplicate_pages \<and>
   ''p2 --> p2'' \<noteq> edge_text ''p2'' (''p'' @ string_of_nat (0 + 1)) \<and>
   length duplicate_pages = 2 \<and>
   urlToId (nodes (buildFlowArtifacts ''https://x/a'' duplicate_pages None [])) ''https://x/a'' = Some ''p2'' \<and>
   edges (buildFlowArtifacts ''https://x/a'' duplicate_pages None []) = [''p2 --> p2'']"
proof -
  have h: "(0::nat) < 1" "1 < length duplicate_pages"
    "url (duplicate_pages ! 0) = url (duplicate_pages ! 1)" "length duplicate_pages = 2"
    by (simp_all add: duplicate_pages_def mk_page_def)
  have look: "urlToId (nodes (buildFlowArtifacts ''https://x/a'' duplicate_pages None [])) ''https://x/a'' = Some ''p2''"
    by (simp add: duplicate_pages_def eval_defs)
  have es: "edges (buildFlowArtifacts ''https://x/a'' duplicate_pages None []) = [''p2 --> p2'']"
    by (simp add: duplicate_pages_def eval_defs)
  then have mem: "''p2 --> p2'' \<in> set (edges (buildFlowArtifacts ''https://x/a'' duplicate_pages None []))"
    by simp
  note t = duplicate_url_last_occurrence_wins [OF h(1) h(2) h(3), of "''https://x/a''" None "[]"]
  from t have c: "nodeCount (flowMeta (buildFlowArtifacts ''https://x/a'' duplicate_pages None [])) = length duplicate_pages"
    by blast
  from t mem have a: "''p2 --> p2'' \<noteq> edge_text ''p2'' (''p'' @ string_of_nat (0 + 1))"
    by blast
  from h c a look es show ?thesis by (intro conjI)
qed

section \<open>Properties of discovery orchestration\<close>

subsection \<open>What each phase appends to the trace\<close>

lemma written_simps [simp]:
  "written [] = []"
  "written (ev # tr) = artifact_of ev @ written tr"
  "written (tr @ tr') = written tr @ written tr'"
  by (simp_all add: written_def)

lemma polls_silent:
  assumes "list_all is_poll evs"
  shows "written evs = []" and "filter is_teardown evs = []" and "filter is_console evs = []"
    and "\<not> list_ex is_engine_start evs"
proof -
  have "written evs = [] \<and> filter is_teardown evs = [] \<and> filter is_console evs = [] \<and>
    \<not> list_ex is_engine_start evs"
    using assms
  proof (induction evs)
    case Nil
    then show ?case by simp
  next
    case (Cons ev evs)
    then show ?case by (cases ev) simp_all
  qed
  then show "written evs = []" and "filter is_teardown evs = []" and "filter is_console evs = []"
    and "\<not> list_ex is_engine_start evs"
    by simp_all
qed

lemma wait_ready_events:
  "\<exists>evs. snd (wait_ready probe attempt tr) = tr @ evs \<and> list_all is_poll evs"
proof (induction probe attempt tr rule: wait_ready.induct)
  case (1 probe attempt tr)
  show ?case
  proof (cases "attempt < 90 \<and> probe attempt \<noteq> Some True")
    case True
    with 1 obtain evs where
      "snd (wait_ready probe (attempt + 1) (tr @ [Fetch Version, Sleep 1000])) =
         (tr @ [Fetch Version, Sleep 1000]) @ evs" "list_all is_poll evs"
      by blast
    with True show ?thesis
      by (subst wait_ready.simps) (simp add: exI [of _ "[Fetch Version, Sleep 1000] @ evs"])
  next
    case False
    then show ?thesis
      by (subst wait_ready.simps) (auto intro: exI [of _ "[Fetch Version]"])
  qed
qed

lemma poll_spider_events:
  "poll_spider status scanId n tr = Some y \<Longrightarrow>
     \<exists>evs. snd y = tr @ evs \<and> list_all is_poll evs"
proof (induction rule: poll_spider.raw_induct [rotated 1, consumes 1, case_names 1])
  case (1 poll status scanId n tr y)
  show ?case
  proof (cases "status n")
    case None
    with 1(2) show ?thesis by auto
  next
    case (Some s)
    show ?thesis
    proof (cases "s = ''100''")
      case True
      with Some 1(2) show ?thesis by auto
    next
      case False
      with Some 1(2) have "poll status scanId (Suc n) (tr @ [Sleep 2000, Fetch (SpiderStatus scanId)]) = Some y"
        by simp
      from 1(1) [OF this] obtain evs
        where "snd y = (tr @ [Sleep 2000, Fetch (SpiderStatus scanId)]) @ evs" "list_all is_poll evs"
        by blast
      then show ?thesis
        by (intro exI [of _ "[Sleep 2000, Fetch (SpiderStatus scanId)] @ evs"]) simp
    qed
  qed
qed

lemma poll_ajax_events:
  "poll_ajax status n tr = Some y \<Longrightarrow>
     \<exists>evs. snd y = tr @ evs \<and> list_all is_poll evs"
proof (induction rule: poll_ajax.raw_induct [rotated 1, consumes 1, case_names 1])
  case (1 poll status n tr y)
  show ?case
  proof (cases "status n")
    case None
    with 1(2) show ?thesis by auto
  next
    case (Some s)
    show ?thesis
    proof (cases "s = ''stopped''")
      case True
      with Some 1(2) show ?thesis by auto
    next
      case False
      with Some 1(2) have "poll status (Suc n) (tr @ [Sleep 3000, Fetch AjaxStatus]) = Some y"
        by simp
      from 1(1) [OF this] obtain evs
        where "snd y = (tr @ [Sleep 3000, Fetch AjaxStatus]) @ evs" "list_all is_poll evs"
        by blast
      then show ?thesis
        by (intro exI [of _ "[Sleep 3000, Fetch AjaxStatus] @ evs"]) simp
    qed
  qed
qed

lemma aggregate_events:
  assumes "aggregate E scanId tr = (r, tr')"
  shows "\<exists>evs. tr' = tr @ evs \<and> scan_events E r evs"
proof (cases "aggregated E")
  case None
  with assms have "tr' = tr @ [Fetch CoreUrls] \<or> tr' = tr @ [Fetch CoreUrls, Fetch (SpiderResults scanId)]"
    and "r \<noteq> Inr ()"
    by (auto simp: aggregate_def aggregated_def split: option.splits sum.splits)
  then show ?thesis
    by (auto simp: scan_events_def)
next
  case (Some p)
  obtain us filtered where p: "p = (us, filtered)" by (cases p)
  let ?a = "engine_artifact E us filtered (clock E (length tr + 2))"
  from Some p have a: "is_engine_artifact E ?a"
    by (auto simp: is_engine_artifact_def)
  from Some p assms
  have "tr' = tr @ [Fetch CoreUrls, Fetch (SpiderResults scanId), WriteUrls ?a (r = Inr ())]"
    and "r = (if r = Inr () then Inr () else Inl External)"
    by (auto simp: aggregate_def aggregated_def writeJson_def split: option.splits sum.splits if_splits)
  with a show ?thesis
    unfolding scan_events_def
    by (intro exI [of _ "[Fetch CoreUrls, Fetch (SpiderResults scanId), WriteUrls ?a (r = Inr ())]"])
       (auto intro!: exI [of _ ?a] exI [of _ "r = Inr ()"])
qed

lemma scan_events_polls:
  assumes "list_all is_poll ps" and "scan_events E r evs"
  shows "scan_events E r (ps @ evs)"
  using assms polls_silent [OF assms(1)] by (simp add: scan_events_def)

lemma scan_events_failure:
  assumes "list_all is_poll ps"
  shows "scan_events E (Inl e) ps"
  using polls_silent [OF assms] by (simp add: scan_events_def)


lemma scan_shape:
  assumes "scan E cookieHeader tr = Some (r, tr')"
  shows "\<exists>evs. tr' = tr @ evs \<and> scan_events E r evs"
proof -
  obtain ra tr1 where ra: "register_auth E cookieHeader tr = (ra, tr1)" by force
  then obtain p0 where p0: "tr1 = tr @ p0" "list_all is_poll p0"
    by (auto simp: register_auth_def split: if_splits)
  show ?thesis
  proof (cases ra)
    case (Inl e)
    with assms ra have "r = Inl e" "tr' = tr1" by (simp_all add: scan_def)
    with p0 show ?thesis by (auto intro: scan_events_failure)
  next
    case (Inr u)
    note reg = ra [unfolded Inr]
    show ?thesis
    proof (cases "spider_scan E")
      case None
      with assms reg have "r = Inl External" "tr' = tr @ (p0 @ [Fetch SpiderScan])"
        by (simp_all add: scan_def p0)
      moreover have "list_all is_poll (p0 @ [Fetch SpiderScan])" using p0 by simp
      ultimately show ?thesis by (blast intro: scan_events_failure)
    next
      case (Some scanId)
      with assms reg obtain y
        where y: "poll_spider (spider_status E) scanId 0 (tr1 @ [Fetch SpiderScan]) = Some y"
        by (auto simp: scan_def split: option.splits)
      from poll_spider_events [OF y] obtain p1
        where p1: "snd y = (tr1 @ [Fetch SpiderScan]) @ p1" "list_all is_poll p1"
        by blast
      define q1 where "q1 = p0 @ [Fetch SpiderScan] @ p1"
      have q1: "snd y = tr @ q1" "list_all is_poll q1"
        using p0 p1 by (simp_all add: q1_def)
      show ?thesis
      proof (cases "fst y")
        case (Inl e)
        with assms reg Some y have "r = Inl e" "tr' = snd y"
          by (cases y; simp add: scan_def)+
        with q1 show ?thesis by (auto intro: scan_events_failure)
      next
        case yr: (Inr u')
        show ?thesis
        proof (cases "ajax_scan_ok E")
          case False
          with assms reg Some y yr have "r = Inl External" "tr' = tr @ (q1 @ [Fetch AjaxScan])"
            using q1(1) by (cases y; simp add: scan_def)+
          moreover have "list_all is_poll (q1 @ [Fetch AjaxScan])" using q1 by simp
          ultimately show ?thesis by (blast intro: scan_events_failure)
        next
          case True
          with assms reg Some y yr obtain z
            where z: "poll_ajax (ajax_status E) 0 (snd y @ [Fetch AjaxScan]) = Some z"
            by (cases y) (auto simp: scan_def split: option.splits)
          from poll_ajax_events [OF z] obtain p2
            where p2: "snd z = (snd y @ [Fetch AjaxScan]) @ p2" "list_all is_poll p2"
            by blast
          define q2 where "q2 = q1 @ [Fetch AjaxScan] @ p2"
          have q2: "snd z = tr @ q2" "list_all is_poll q2"
            using q1 p2 by (simp_all add: q2_def)
          show ?thesis
          proof (cases "fst z")
            case (Inl e)
            with assms reg Some y yr True z have "r = Inl e" "tr' = snd z"
              by (cases y; cases z; simp add: scan_def)+
            with q2 show ?thesis by (auto intro: scan_events_failure)
          next
            case zr: (Inr u'')
            with assms reg Some y yr True z have "aggregate E scanId (snd z) = (r, tr')"
              by (cases y; cases z; simp add: scan_def)
            from aggregate_events [OF this] obtain evs
              where "tr' = snd z @ evs" "scan_events E r evs" by blast
            with q2 have "tr' = tr @ (q2 @ evs)" "scan_events E r (q2 @ evs)"
              by (simp_all add: scan_events_polls)
            then show ?thesis by blast
          qed
        qed
      qed
    qed
  qed
qed

lemma try_body_shape:
  assumes "try_body E cookieHeader tr = Some (r, started, tr')"
  shows "started = docker_run_ok E \<and>
    (\<exists>evs. tr' = tr @ [Exec (DockerRun (containerName E)) Inherit started] @ evs \<and>
           scan_events E r evs)"
proof (cases "docker_run_ok E")
  case False
  with assms show ?thesis
    by (auto simp: try_body_def scan_events_def)
next
  case True
  let ?tr0 = "tr @ [Exec (DockerRun (containerName E)) Inherit True]"
  obtain b tr1 where w: "wait_ready (version_probe E) 0 ?tr0 = (b, tr1)" by force
  from wait_ready_events [of "version_probe E" 0 ?tr0] w obtain p0
    where p0: "tr1 = ?tr0 @ p0" "list_all is_poll p0" by auto
  show ?thesis
  proof (cases b)
    case False
    with assms True w have "r = Inl ZapNotReady" "started" "tr' = tr1"
      by (simp_all add: try_body_def)
    with True p0 show ?thesis by (auto intro: scan_events_failure)
  next
    case ready: True
    with assms True w have s: "scan E cookieHeader tr1 = Some (r, tr')" and "started"
      by (auto simp: try_body_def split: option.splits)
    from scan_shape [OF s] obtain evs where "tr' = tr1 @ evs" "scan_events E r evs" by blast
    with p0 have "tr' = tr @ [Exec (DockerRun (containerName E)) Inherit True] @ (p0 @ evs)"
      "scan_events E r (p0 @ evs)"
      by (simp_all add: scan_events_polls)
    with True \<open>started\<close> show ?thesis by blast
  qed
qed

lemma wait_ready_timeout:
  "(\<And>a. attempt \<le> a \<Longrightarrow> a < 90 \<Longrightarrow> probe a \<noteq> Some True) \<Longrightarrow>
     fst (wait_ready probe attempt tr) = False"
proof (induction probe attempt tr rule: wait_ready.induct)
  case (1 probe attempt tr)
  show ?case
  proof (cases "attempt < 90")
    case True
    with 1 show ?thesis by (subst wait_ready.simps) simp
  next
    case False
    then show ?thesis by (subst wait_ready.simps) simp
  qed
qed

lemma auth_header_shape:
  assumes "auth_header E [] = (ra, pre)"
  shows "list_all is_auth pre"
  using assms
  by (auto simp: auth_header_def getAuthCookies_def split: if_splits option.splits)

lemma auth_silent:
  assumes "list_all is_auth pre"
  shows "written pre = []" and "filter is_teardown pre = []" and "\<not> list_ex is_engine_start pre"
proof -
  have "written pre = [] \<and> filter is_teardown pre = [] \<and> \<not> list_ex is_engine_start pre"
    using assms
  proof (induction pre)
    case Nil
    then show ?case by simp
  next
    case (Cons ev evs)
    then show ?case by (cases ev) simp_all
  qed
  then show "written pre = []" and "filter is_teardown pre = []" and "\<not> list_ex is_engine_start pre"
    by simp_all
qed

subsection \<open>The paths through \<open>main\<close> and the top-level handler\<close>

lemma main_cases [consumes 1, case_names auth_failed no_docker tried]:
  assumes "main E = Some (r, tr)"
  obtains e where "auth_header E [] = (Inl e, tr)" and "r = Inl e"
  | h pre where "auth_header E [] = (Inr h, pre)" and "\<not> docker_info_ok E"
      and "writeFallbackUrls E ''docker_unavailable''
             (pre @ [Exec DockerInfo Ignore False,
                     ConsoleWarn ''Docker is not available. Writing fallback URLs only.'']) = (r, tr)"
  | h pre r0 tr1 evs tr2 where "auth_header E [] = (Inr h, pre)" and "docker_info_ok E"
      and "try_body E h (pre @ [Exec DockerInfo Ignore True]) = Some (r0, docker_run_ok E, tr1)"
      and "tr1 = pre @ [Exec DockerInfo Ignore True,
                        Exec (DockerRun (containerName E)) Inherit (docker_run_ok E)] @ evs"
      and "scan_events E r0 evs"
      and "catch_block E r0 tr1 = (r, tr2)"
      and "tr = finally_block E (docker_run_ok E) tr2"
proof -
  obtain ra pre where a: "auth_header E [] = (ra, pre)" by force
  show thesis
  proof (cases ra)
    case (Inl e)
    with assms a that(1) show thesis by (simp add: main_def)
  next
    case (Inr h)
    note a = a [unfolded Inr]
    show thesis
    proof (cases "docker_info_ok E")
      case False
      with assms a that(2) show thesis
        by (cases "writeFallbackUrls E ''docker_unavailable''
             (pre @ [Exec DockerInfo Ignore False,
                     ConsoleWarn ''Docker is not available. Writing fallback URLs only.''])")
           (simp add: main_def)
    next
      case True
      with assms a obtain r0 started tr1
        where t: "try_body E h (pre @ [Exec DockerInfo Ignore True]) = Some (r0, started, tr1)"
        by (auto simp: main_def split: option.splits)
      from try_body_shape [OF t] obtain evs where s: "started = docker_run_ok E"
        "tr1 = (pre @ [Exec DockerInfo Ignore True]) @ [Exec (DockerRun (containerName E)) Inherit started] @ evs"
        "scan_events E r0 evs"
        by blast
      obtain r' tr2 where c: "catch_block E r0 tr1 = (r', tr2)" by force
      with assms a True t have "r = r'" "tr = finally_block E started tr2"
        by (simp_all add: main_def)
      with a True t s c that(3) [of h pre r0 tr1 evs tr2] show thesis by simp
    qed
  qed
qed

lemma rm_irrelevant_steps:
  "writeJson (E\<lparr>docker_rm_ok := b\<rparr>) a tr = writeJson E a tr"
  "writeFallbackUrls (E\<lparr>docker_rm_ok := b\<rparr>) reason tr = writeFallbackUrls E reason tr"
  "register_auth (E\<lparr>docker_rm_ok := b\<rparr>) h tr = register_auth E h tr"
  "aggregate (E\<lparr>docker_rm_ok := b\<rparr>) scanId tr = aggregate E scanId tr"
  "containerName (E\<lparr>docker_rm_ok := b\<rparr>) = containerName E"
  by (simp_all add: writeJson_def writeFallbackUrls_def fallback_artifact_def register_auth_def
      aggregate_def engine_artifact_def containerName_def
      cong: option.case_cong sum.case_cong)

lemma rm_irrelevant:
  "auth_header (E\<lparr>docker_rm_ok := b\<rparr>) tr = auth_header E tr"
  "scan (E\<lparr>docker_rm_ok := b\<rparr>) h tr = scan E h tr"
  "catch_block (E\<lparr>docker_rm_ok := b\<rparr>) r tr = catch_block E r tr"
  by (simp_all add: auth_header_def getAuthCookies_def scan_def catch_block_def
      rm_irrelevant_steps cong: option.case_cong sum.case_cong prod.case_cong if_cong)

lemma try_body_rm_irrelevant:
  "try_body (E\<lparr>docker_rm_ok := b\<rparr>) h tr = try_body E h tr"
  by (simp add: try_body_def rm_irrelevant rm_irrelevant_steps cong: prod.case_cong bool.case_cong option.case_cong if_cong)

lemma catch_block_shape:
  assumes "catch_block E r0 tr1 = (r, tr2)"
  shows "(r0 = Inr () \<and> r = Inr () \<and> tr2 = tr1) \<or>
    (\<exists>e ok. r0 = Inl e \<and> r = (if ok then Inr () else Inl External) \<and>
       tr2 = tr1 @ [ConsoleError e,
                    WriteUrls (fallback_artifact E ''zap_failed'' (clock E (Suc (length tr1)))) ok])"
  using assms
  by (cases r0) (auto simp: catch_block_def writeFallbackUrls_def writeJson_def split: if_splits)

lemma writeFallbackUrls_eq:
  "writeFallbackUrls E reason tr =
     (if write_ok E (length (written tr)) then Inr () else Inl External,
      tr @ [WriteUrls (fallback_artifact E reason (clock E (length tr)))
              (write_ok E (length (written tr)))])"
  by (simp add: writeFallbackUrls_def writeJson_def)

lemma run_cases [consumes 1, case_names returned raised]:
  assumes "run E = Some (r, tr)"
  obtains "main E = Some (Inr (), tr)" and "r = Inr ()"
  | e tr0 ok where "main E = Some (Inl e, tr0)"
      and "tr = tr0 @ [ConsoleError e,
             WriteUrls (fallback_artifact E ''unexpected_error'' (clock E (Suc (length tr0)))) ok]"
      and "r = (if ok then Inr () else Inl External)"
proof -
  from assms obtain r0 tr0 where m: "main E = Some (r0, tr0)"
    by (cases "main E") (auto simp: run_def)
  show thesis
  proof (cases r0)
    case (Inr u)
    with assms m have "r = Inr ()" and "tr = tr0" by (simp_all add: run_def)
    moreover from m Inr have "main E = Some (Inr (), tr0)" by simp
    ultimately show thesis using that(1) by blast
  next
    case (Inl e)
    with assms m have "r = (if write_ok E (length (written tr0)) then Inr () else Inl External)"
      and "tr = tr0 @ [ConsoleError e,
             WriteUrls (fallback_artifact E ''unexpected_error'' (clock E (Suc (length tr0))))
               (write_ok E (length (written tr0)))]"
      by (simp_all add: run_def writeFallbackUrls_eq)
    with m Inl that(2) show thesis by blast
  qed
qed

lemma main_written:
  assumes "main E = Some (r, tr)"
  shows "(written tr = [] \<and> r \<noteq> Inr ()) \<or>
    (\<exists>a ok. is_fallback E ''docker_unavailable'' a \<and> written tr = [(a, ok)] \<and>
       r = (if ok then Inr () else Inl External)) \<or>
    (\<exists>a. is_engine_artifact E a \<and> written tr = [(a, True)] \<and> r = Inr ()) \<or>
    (\<exists>ws c ok. (ws = [] \<or> (\<exists>a. is_engine_artifact E a \<and> ws = [(a, False)])) \<and>
       is_fallback E ''zap_failed'' c \<and> written tr = ws @ [(c, ok)] \<and>
       r = (if ok then Inr () else Inl External))"
  (is "?P1 \<or> ?P2 \<or> ?P3 \<or> ?P4")
  using assms
proof (cases rule: main_cases)
  case (auth_failed e)
  from auth_header_shape [OF auth_failed(1)] have "list_all is_auth tr" .
  from auth_silent(1) [OF this] auth_failed(2) have ?P1 by simp
  then show ?thesis by blast
next
  case (no_docker h pre)
  from auth_header_shape [OF no_docker(1)] have "list_all is_auth pre" .
  from auth_silent(1) [OF this] no_docker(3) [unfolded writeFallbackUrls_eq]
  have "written tr = [(fallback_artifact E ''docker_unavailable'' (clock E (length pre + 2)), write_ok E 0)]"
    and "r = (if write_ok E 0 then Inr () else Inl External)"
    by auto
  moreover have "is_fallback E ''docker_unavailable''
      (fallback_artifact E ''docker_unavailable'' (clock E (length pre + 2)))"
    by (auto simp: is_fallback_def)
  ultimately have ?P2 by blast
  then show ?thesis by blast
next
  case (tried h pre r0 tr1 evs tr2)
  from auth_header_shape [OF tried(1)] have "list_all is_auth pre" .
  note pre = auth_silent(1) [OF this]
  have w1: "written tr1 = written evs" using pre tried(4) by simp
  have w: "written tr = written tr2" using tried(7) by (simp add: finally_block_def)
  have fb: "is_fallback E ''zap_failed'' (fallback_artifact E ''zap_failed'' now)" for now
    by (auto simp: is_fallback_def)
  from catch_block_shape [OF tried(6)]
  consider "r0 = Inr ()" "r = Inr ()" "tr2 = tr1"
    | e ok where "r0 = Inl e" "r = (if ok then Inr () else Inl External)"
        "written tr2 = written tr1 @ [(fallback_artifact E ''zap_failed'' (clock E (Suc (length tr1))), ok)]"
    by auto
  then show ?thesis
  proof cases
    case 1
    with tried(5) obtain a where "is_engine_artifact E a" "written evs = [(a, True)]"
      by (auto simp: scan_events_def split: if_splits)
    with 1 w w1 have ?P3 by auto
    then show ?thesis by blast
  next
    case (2 e ok)
    from tried(5) 2(1) have "written evs = [] \<or> (\<exists>a. is_engine_artifact E a \<and> written evs = [(a, False)])"
      by (auto simp: scan_events_def split: if_splits)
    with 2 w w1 fb have ?P4 by auto
    then show ?thesis by blast
  qed
qed

lemma engine_artifact_error: "is_engine_artifact E a \<Longrightarrow> error a = None"
  by (auto simp: is_engine_artifact_def engine_artifact_def)

lemma fallback_error: "is_fallback E reason a \<Longrightarrow> error a = Some reason"
  by (auto simp: is_fallback_def fallback_artifact_def)

lemma engine_artifact_facts:
  assumes "is_engine_artifact E a"
  shows "\<exists>coreUrls spiderUrls origin.
      core_urls E = Some coreUrls \<and> spider_results E = Some spiderUrls \<and>
      origin_of E (TARGET_URL E) = Some origin \<and>
      map entry_url (urls a) =
        filter (\<lambda>u. origin_of E u = Some origin) (array_from_set (or_empty coreUrls @ or_empty spiderUrls)) \<and>
      total a = length (array_from_set (or_empty coreUrls @ or_empty spiderUrls)) \<and>
      sameOrigin a = length (urls a) \<and>
      (\<forall>d \<in> set (urls a). source d = ''zap'')"
proof -
  from assms obtain us filtered now
    where agg: "aggregated E = Some (us, filtered)" and a: "a = engine_artifact E us filtered now"
    by (auto simp: is_engine_artifact_def)
  from agg obtain cu su origin where "core_urls E = Some cu" "spider_results E = Some su"
    "origin_of E (TARGET_URL E) = Some origin" "us = array_from_set (or_empty cu @ or_empty su)"
    "filtered = filter (\<lambda>u. origin_of E u = Some origin) us"
    by (auto simp: aggregated_def filterSameOrigin_def split: option.splits sum.splits)
  with a show ?thesis
    by (auto simp: engine_artifact_def comp_def)
qed

lemma fallback_facts:
  "urls (fallback_artifact E reason now) = [\<lparr>entry_url = TARGET_URL E, source = ''fallback''\<rparr>]"
  "total (fallback_artifact E reason now) = 1"
  "sameOrigin (fallback_artifact E reason now) = 1"
  "error (fallback_artifact E reason now) = Some reason"
  by (simp_all add: fallback_artifact_def)

subsection \<open>The example worlds, evaluated\<close>

lemmas run_eval = main_def run_def auth_header_def getAuthCookies_def try_body_def
  wait_ready.simps scan_def register_auth_def poll_spider.simps poll_ajax.simps aggregate_def
  filterSameOrigin_def or_empty_def array_from_set_def writeJson_def writeFallbackUrls_def
  catch_block_def finally_block_def containerName_def engine_artifact_def fallback_artifact_def
  string_of_nat.simps digit_char_def same_host_def prefix_code
  calm_world_def calm_artifact_def fallback_x_def

lemma calm_main: "main calm_world = Some (Inr (), calm_trace True)"
  by (simp add: calm_trace_def run_eval)

lemma teardown_fails_main: "main teardown_fails_world = Some (Inr (), calm_trace False)"
  by (simp add: teardown_fails_world_def calm_trace_def run_eval)

lemma no_docker_main: "main no_docker_world = Some (Inr (), no_docker_trace)"
  by (simp add: no_docker_world_def no_docker_trace_def run_eval)

lemma spider_throws_main: "main spider_throws_world = Some (Inr (), spider_throws_trace)"
  by (simp add: spider_throws_world_def spider_throws_trace_def run_eval)

lemma login_throws_main: "main login_throws_world = Some (Inl External, [BrowserLogin False])"
  by (simp add: login_throws_world_def run_eval)

lemma never_ready_main:
  "map_option (\<lambda>(r, tr). (r, written tr, filter is_teardown tr, engine_started tr, length tr))
     (main never_ready_world) =
   Some (Inr (), [(fallback_x ''zap_failed'', True)],
         [Exec (DockerRm ''zap-7'') Inherit True], True, 185)"
  by (simp add: never_ready_world_def run_eval engine_started_def)

lemma spider_throws_try:
  "try_body spider_throws_world [] [Exec DockerInfo Ignore True] =
     Some (Inl External, True, take 6 spider_throws_trace)"
  by (simp add: spider_throws_world_def spider_throws_trace_def run_eval)

section \<open>The claims about discovery\<close>

text \<open>
  Claim C1, as amended. Whenever \<open>main\<close> returns or throws, the removal of the container
  has been executed exactly once if the engine was started (and not at all otherwise), on
  every path alike; it is then the last effect of \<open>main\<close>. A failure of the removal is
  swallowed silently: whatever its outcome \<open>b\<close>, \<open>main\<close> ends with the same result and
  the same trace up to the recorded outcome of the removal, so nothing is re-raised and
  nothing is written to the console about it. The handler of last resort removes nothing.
\<close>

theorem teardown_exactly_once_and_swallowed:
  assumes "main E = Some (r, tr)"
  shows "filter is_teardown tr =
      (if engine_started tr then [Exec (DockerRm (containerName E)) Inherit (docker_rm_ok E)] else []) \<and>
    (engine_started tr \<longrightarrow>
       last tr = Exec (DockerRm (containerName E)) Inherit (docker_rm_ok E) \<and>
       main (E\<lparr>docker_rm_ok := b\<rparr>) =
         Some (r, butlast tr @ [Exec (DockerRm (containerName E)) Inherit b])) \<and>
    (run E = Some (r', tr') \<longrightarrow> filter is_teardown tr' = filter is_teardown tr)"
  (is "?Once \<and> ?Last \<and> ?Top")
proof -
  have ?Top
  proof
    assume "run E = Some (r', tr')"
    then show "filter is_teardown tr' = filter is_teardown tr"
    proof (cases rule: run_cases)
      case returned
      with assms show ?thesis by simp
    next
      case (raised e tr0 ok)
      with assms show ?thesis by simp
    qed
  qed
  moreover from assms have "?Once \<and> ?Last"
  proof (cases rule: main_cases)
  case (auth_failed e)
  from auth_header_shape [OF auth_failed(1)] have "list_all is_auth tr" .
  from auth_silent [OF this] show ?thesis by (simp add: engine_started_def)
next
  case (no_docker h pre)
  from auth_header_shape [OF no_docker(1)] have "list_all is_auth pre" .
  from auth_silent [OF this] no_docker(3) show ?thesis
    by (auto simp: engine_started_def writeFallbackUrls_def writeJson_def split: if_splits)
next
  case (tried h pre r0 tr1 evs tr2)
  from auth_header_shape [OF tried(1)] have "list_all is_auth pre" .
  note pre = auth_silent [OF this]
  from tried(5) have evs: "filter is_teardown evs = []" "\<not> list_ex is_engine_start evs"
    by (simp_all add: scan_events_def)
  from catch_block_shape [OF tried(6)] obtain hs
    where hs: "tr2 = tr1 @ hs" "filter is_teardown hs = []" "\<not> list_ex is_engine_start hs"
    by auto
  have started: "engine_started tr \<longleftrightarrow> docker_run_ok E"
    using pre evs hs tried(4,7) by (auto simp: engine_started_def finally_block_def)
  have once: "filter is_teardown tr =
      (if docker_run_ok E then [Exec (DockerRm (containerName E)) Inherit (docker_rm_ok E)] else [])"
    using pre evs hs tried(4,7) by (simp add: finally_block_def)
  have final: "last tr = Exec (DockerRm (containerName E)) Inherit (docker_rm_ok E)"
    and swallowed: "main (E\<lparr>docker_rm_ok := b\<rparr>) =
           Some (r, butlast tr @ [Exec (DockerRm (containerName E)) Inherit b])"
    if "docker_run_ok E"
    using that tried by (simp_all add: main_def rm_irrelevant rm_irrelevant_steps try_body_rm_irrelevant finally_block_def)
  from started once final swallowed show ?thesis by simp
  qed
  ultimately show ?thesis by simp
qed

text \<open>
  Claim C1 as stated has the failure of teardown logged. In a world where every call
  succeeds except the removal of the container, the run writes nothing to the console.
\<close>

theorem teardown_failure_not_logged:
  "\<not> docker_rm_ok teardown_fails_world \<and>
   main teardown_fails_world = Some (Inr (), calm_trace False) \<and>
   filter is_console (calm_trace False) = []"
  using teardown_fails_main
  by (simp add: teardown_fails_world_def calm_world_def calm_trace_def)

theorem teardown_exactly_once_and_swallowed_witness:
  "main teardown_fails_world = Some (Inr (), calm_trace False) \<and>
   engine_started (calm_trace False) \<and>
   filter is_teardown (calm_trace False) = [Exec (DockerRm ''zap-7'') Inherit False] \<and>
   last (calm_trace False) = Exec (DockerRm ''zap-7'') Inherit False \<and>
   main (teardown_fails_world\<lparr>docker_rm_ok := True\<rparr>) = Some (Inr (), calm_trace True) \<and>
   main spider_throws_world = Some (Inr (), spider_throws_trace) \<and>
   engine_started spider_throws_trace \<and>
   filter is_teardown spider_throws_trace = [Exec (DockerRm ''zap-7'') Inherit True] \<and>
   (\<exists>r tr. main never_ready_world = Some (r, tr) \<and> engine_started tr \<and>
      filter is_teardown tr = [Exec (DockerRm ''zap-7'') Inherit True]) \<and>
   main login_throws_world = Some (Inl External, [BrowserLogin False]) \<and>
   run login_throws_world = Some (Inr (), login_throws_trace) \<and>
   filter is_teardown login_throws_trace = []"
proof -
  have lr: "run login_throws_world = Some (Inr (), login_throws_trace)"
    using login_throws_main
    by (simp add: run_def login_throws_trace_def login_throws_world_def calm_world_def
        writeFallbackUrls_def writeJson_def fallback_artifact_def fallback_x_def)
  from teardown_exactly_once_and_swallowed [OF login_throws_main,
      where r' = "Inr ()" and tr' = login_throws_trace] lr
  have lt: "filter is_teardown login_throws_trace = []" by simp
  have s1: "engine_started (calm_trace False)" and s2: "engine_started spider_throws_trace"
    by (simp_all add: engine_started_def calm_trace_def spider_throws_trace_def)
  have n: "containerName teardown_fails_world = ''zap-7''"
    "containerName spider_throws_world = ''zap-7''" "containerName never_ready_world = ''zap-7''"
    "docker_rm_ok teardown_fails_world = False" "docker_rm_ok spider_throws_world = True"
    "docker_rm_ok never_ready_world = True"
    by (simp_all add: teardown_fails_world_def spider_throws_world_def never_ready_world_def
        containerName_def calm_world_def string_of_nat.simps digit_char_def)
  have b: "butlast (calm_trace False) @ [Exec (DockerRm ''zap-7'') Inherit True] = calm_trace True"
    by (simp add: calm_trace_def)
  from never_ready_main obtain r tr where nr: "main never_ready_world = Some (r, tr)"
    "engine_started tr"
    by (cases "main never_ready_world") auto
  from teardown_exactly_once_and_swallowed [OF teardown_fails_main, of True] s1 n b
  have "filter is_teardown (calm_trace False) = [Exec (DockerRm ''zap-7'') Inherit False]"
    "last (calm_trace False) = Exec (DockerRm ''zap-7'') Inherit False"
    "main (teardown_fails_world\<lparr>docker_rm_ok := True\<rparr>) = Some (Inr (), calm_trace True)"
    by simp_all
  moreover from teardown_exactly_once_and_swallowed [OF spider_throws_main, of True] s2 n
  have "filter is_teardown spider_throws_trace = [Exec (DockerRm ''zap-7'') Inherit True]"
    by simp
  moreover from teardown_exactly_once_and_swallowed [OF nr(1), of True] nr(2) n
  have "filter is_teardown tr = [Exec (DockerRm ''zap-7'') Inherit True]"
    by simp
  ultimately show ?thesis
    using teardown_fails_main spider_throws_main s1 s2 nr login_throws_main lr lt by blast
qed

text \<open>
  Claim C2, as amended. The \<open>error\<close> field of every artifact written in a run is absent
  or one of the three codes \<open>docker_unavailable\<close>, \<open>zap_failed\<close>,
  \<open>unexpected_error\<close>. A failed runtime probe ends \<open>main\<close> with the single write of
  \<open>docker_unavailable\<close>; 90 probes without a ready answer end it with the single write
  of \<open>zap_failed\<close>; any exception of the \<open>try\<close> block is followed by a write of
  \<open>zap_failed\<close>; an exception leaving \<open>main\<close> is followed by a write of
  \<open>unexpected_error\<close>.
\<close>

theorem failure_reason_codes:
  "(run E = Some (r, tr) \<longrightarrow>
      set (map (error \<circ> fst) (written tr)) \<subseteq>
        {None, Some ''docker_unavailable'', Some ''zap_failed'', Some ''unexpected_error''}) \<and>
   (auth_header E [] = (Inr h, pre) \<and> \<not> docker_info_ok E \<longrightarrow>
      (\<exists>r' tr'. main E = Some (r', tr') \<and>
         map (error \<circ> fst) (written tr') = [Some ''docker_unavailable''])) \<and>
   (auth_header E [] = (Inr h, pre) \<and> docker_info_ok E \<and> docker_run_ok E \<and>
    (\<forall>n < 90. version_probe E n \<noteq> Some True) \<longrightarrow>
      (\<exists>r' tr'. main E = Some (r', tr') \<and>
         map (error \<circ> fst) (written tr') = [Some ''zap_failed''])) \<and>
   (auth_header E [] = (Inr h, pre) \<and> docker_info_ok E \<and>
    try_body E h (pre @ [Exec DockerInfo Ignore True]) = Some (Inl e, started, tr1) \<longrightarrow>
      (\<exists>r' tr'. main E = Some (r', tr') \<and>
         map (error \<circ> fst) (written tr') =
           map (error \<circ> fst) (written tr1) @ [Some ''zap_failed''])) \<and>
   (main E = Some (Inl e, tr0) \<longrightarrow>
      (\<exists>r' tr'. run E = Some (r', tr') \<and>
         map (error \<circ> fst) (written tr') =
           map (error \<circ> fst) (written tr0) @ [Some ''unexpected_error'']))"
  (is "?A \<and> ?B \<and> ?C \<and> ?D \<and> ?T")
proof -
  have codes: "set (map (error \<circ> fst) (written tr)) \<subseteq>
        {None, Some ''docker_unavailable'', Some ''zap_failed''}"
    if "main E = Some (r, tr)" for r tr
    using main_written [OF that]
    by (auto dest!: engine_artifact_error fallback_error)
  have ?A
  proof
    assume "run E = Some (r, tr)"
    then show "set (map (error \<circ> fst) (written tr)) \<subseteq>
        {None, Some ''docker_unavailable'', Some ''zap_failed'', Some ''unexpected_error''}"
    proof (cases rule: run_cases)
      case returned
      with codes [OF returned(1)] show ?thesis by auto
    next
      case (raised e tr0 ok)
      with codes [OF raised(1)] show ?thesis by (auto simp: fallback_artifact_def)
    qed
  qed
  moreover have ?B
  proof
    assume a: "auth_header E [] = (Inr h, pre) \<and> \<not> docker_info_ok E"
    with auth_header_shape [of E "Inr h" pre] have "list_all is_auth pre" by simp
    from auth_silent(1) [OF this] a
    show "\<exists>r' tr'. main E = Some (r', tr') \<and>
         map (error \<circ> fst) (written tr') = [Some ''docker_unavailable'']"
      by (auto simp: main_def writeFallbackUrls_def writeJson_def fallback_artifact_def)
  qed
  moreover have ?D
  proof
    assume a: "auth_header E [] = (Inr h, pre) \<and> docker_info_ok E \<and>
      try_body E h (pre @ [Exec DockerInfo Ignore True]) = Some (Inl e, started, tr1)"
    then show "\<exists>r' tr'. main E = Some (r', tr') \<and>
         map (error \<circ> fst) (written tr') =
           map (error \<circ> fst) (written tr1) @ [Some ''zap_failed'']"
      by (auto simp: main_def catch_block_def finally_block_def writeFallbackUrls_def
          writeJson_def fallback_artifact_def)
  qed
  moreover have ?C
  proof
    assume a: "auth_header E [] = (Inr h, pre) \<and> docker_info_ok E \<and> docker_run_ok E \<and>
      (\<forall>n < 90. version_probe E n \<noteq> Some True)"
    with auth_header_shape [of E "Inr h" pre] have "list_all is_auth pre" by simp
    note pre = auth_silent(1) [OF this]
    let ?tr = "pre @ [Exec DockerInfo Ignore True] @ [Exec (DockerRun (containerName E)) Inherit True]"
    obtain b tr1 where w: "wait_ready (version_probe E) 0 ?tr = (b, tr1)" by force
    from a wait_ready_timeout [of 0 "version_probe E" ?tr] w have b: "\<not> b" by simp
    from wait_ready_events [of "version_probe E" 0 ?tr] w obtain ps
      where ps: "tr1 = ?tr @ ps" "list_all is_poll ps" by auto
    from a w b have t: "try_body E h (pre @ [Exec DockerInfo Ignore True]) = Some (Inl ZapNotReady, True, tr1)"
      by (simp add: try_body_def)
    have "written tr1 = []" using ps pre polls_silent(1) [OF ps(2)] by simp
    with a t show "\<exists>r' tr'. main E = Some (r', tr') \<and>
         map (error \<circ> fst) (written tr') = [Some ''zap_failed'']"
      by (auto simp: main_def catch_block_def finally_block_def writeFallbackUrls_def
          writeJson_def fallback_artifact_def)
  qed
  moreover have ?T
    by (auto simp: run_def writeFallbackUrls_def writeJson_def fallback_artifact_def)
  ultimately show ?thesis by (intro conjI)
qed

text \<open>
  Claim C2 as stated names the codes \<open>engine_unavailable\<close> and \<open>ready_timeout\<close>. A
  failed runtime probe writes \<open>docker_unavailable\<close>, which is none of the four codes of
  the claim, and an engine that never becomes ready writes \<open>zap_failed\<close>.
\<close>

theorem probe_failure_reason_is_docker_unavailable:
  "run no_docker_world = Some (Inr (), no_docker_trace) \<and>
   map (error \<circ> fst) (written no_docker_trace) = [Some ''docker_unavailable''] \<and>
   ''docker_unavailable'' \<notin> set [''engine_unavailable'', ''ready_timeout'', ''scan_failed'', ''unexpected_error''] \<and>
   map_option (map (error \<circ> fst) \<circ> written \<circ> snd) (main never_ready_world) = Some [Some ''zap_failed'']"
proof -
  from never_ready_main
  have "map_option (map (error \<circ> fst) \<circ> written \<circ> snd) (main never_ready_world) = Some [Some ''zap_failed'']"
    by (cases "main never_ready_world") (auto simp: fallback_x_def)
  then show ?thesis
    using no_docker_main by (simp add: run_def no_docker_trace_def fallback_x_def)
qed

theorem failure_reason_codes_witness:
  "auth_header no_docker_world [] = (Inr [], []) \<and> \<not> docker_info_ok no_docker_world \<and>
   set (map (error \<circ> fst) (written no_docker_trace)) \<subseteq>
     {None, Some ''docker_unavailable'', Some ''zap_failed'', Some ''unexpected_error''} \<and>
   (\<exists>r tr. main no_docker_world = Some (r, tr) \<and>
      map (error \<circ> fst) (written tr) = [Some ''docker_unavailable'']) \<and>
   (\<exists>r tr. main never_ready_world = Some (r, tr) \<and>
      map (error \<circ> fst) (written tr) = [Some ''zap_failed'']) \<and>
   try_body spider_throws_world [] [Exec DockerInfo Ignore True] =
     Some (Inl External, True, take 6 spider_throws_trace) \<and>
   (\<exists>r tr. main spider_throws_world = Some (r, tr) \<and>
      map (error \<circ> fst) (written tr) = [Some ''zap_failed'']) \<and>
   (\<exists>r tr. run login_throws_world = Some (r, tr) \<and>
      map (error \<circ> fst) (written tr) = [Some ''unexpected_error''])"
proof -
  have nd: "run no_docker_world = Some (Inr (), no_docker_trace)"
    using no_docker_main by (simp add: run_def)
  have a1: "auth_header no_docker_world [] = (Inr [], [])" "\<not> docker_info_ok no_docker_world"
    by (simp_all add: no_docker_world_def calm_world_def auth_header_def)
  have a2: "auth_header never_ready_world [] = (Inr [], [])" "docker_info_ok never_ready_world"
    "docker_run_ok never_ready_world" "\<forall>n < 90. version_probe never_ready_world n \<noteq> Some True"
    by (simp_all add: never_ready_world_def calm_world_def auth_header_def)
  note t = failure_reason_codes [where E = no_docker_world and r = "Inr ()" and tr = no_docker_trace
      and h = "[]" and pre = "[]"]
  from t [THEN conjunct1, THEN mp, OF nd]
  have A: "set (map (error \<circ> fst) (written no_docker_trace)) \<subseteq>
     {None, Some ''docker_unavailable'', Some ''zap_failed'', Some ''unexpected_error''}" .
  from a1 have "auth_header no_docker_world [] = (Inr [], []) \<and> \<not> docker_info_ok no_docker_world"
    by simp
  from t [THEN conjunct2, THEN conjunct1, THEN mp, OF this]
  have B: "\<exists>r tr. main no_docker_world = Some (r, tr) \<and>
      map (error \<circ> fst) (written tr) = [Some ''docker_unavailable'']" .
  from a2 have "auth_header never_ready_world [] = (Inr [], []) \<and> docker_info_ok never_ready_world \<and>
    docker_run_ok never_ready_world \<and> (\<forall>n < 90. version_probe never_ready_world n \<noteq> Some True)"
    by simp
  from failure_reason_codes [where E = never_ready_world and h = "[]" and pre = "[]",
      THEN conjunct2, THEN conjunct2, THEN conjunct1, THEN mp, OF this]
  have C: "\<exists>r tr. main never_ready_world = Some (r, tr) \<and>
      map (error \<circ> fst) (written tr) = [Some ''zap_failed'']" .
  from failure_reason_codes [where E = login_throws_world and e = External and ?tr0.0 = "[BrowserLogin False]",
      THEN conjunct2, THEN conjunct2, THEN conjunct2, THEN conjunct2, THEN mp, OF login_throws_main]
  have T: "\<exists>r tr. run login_throws_world = Some (r, tr) \<and>
      map (error \<circ> fst) (written tr) = [Some ''unexpected_error'']"
    by simp
  have a3: "auth_header spider_throws_world [] = (Inr [], []) \<and> docker_info_ok spider_throws_world \<and>
    try_body spider_throws_world [] ([] @ [Exec DockerInfo Ignore True]) =
      Some (Inl External, True, take 6 spider_throws_trace)"
    using spider_throws_try by (simp add: spider_throws_world_def calm_world_def auth_header_def)
  have w3: "written (take 6 spider_throws_trace) = []"
    by (simp add: spider_throws_trace_def)
  from failure_reason_codes [where E = spider_throws_world and h = "[]" and pre = "[]"
      and e = External and started = True and ?tr1.0 = "take 6 spider_throws_trace",
      THEN conjunct2, THEN conjunct2, THEN conjunct2, THEN conjunct1, THEN mp, OF a3]
  have D: "\<exists>r tr. main spider_throws_world = Some (r, tr) \<and>
      map (error \<circ> fst) (written tr) = [Some ''zap_failed'']"
    by (simp add: w3)
  from a1 A B C spider_throws_try D T show ?thesis by (intro conjI)
qed

text \<open>
  Claim C3, as amended. When \<open>main\<close> has written an artifact without \<open>error\<close>, it
  returns normally, that artifact is the only one written, every entry carries the source
  \<open>zap\<close>, and the urls of the entries are the deduplicated union of the engine's url
  list and the spider's results, filtered to the origin of the target.
\<close>

theorem engine_result_on_success:
  assumes "main E = Some (r, tr)" and "(a, True) \<in> set (written tr)" and "error a = None"
  shows "r = Inr () \<and> written tr = [(a, True)] \<and>
    (\<forall>d \<in> set (urls a). source d = ''zap'') \<and>
    distinct (map entry_url (urls a)) \<and>
    sameOrigin a = length (urls a) \<and>
    (\<exists>coreUrls spiderUrls origin.
       core_urls E = Some coreUrls \<and> spider_results E = Some spiderUrls \<and>
       origin_of E (TARGET_URL E) = Some origin \<and>
       map entry_url (urls a) =
         filter (\<lambda>u. origin_of E u = Some origin)
           (array_from_set (or_empty coreUrls @ or_empty spiderUrls)) \<and>
       set (map entry_url (urls a)) =
         {u \<in> set (or_empty coreUrls) \<union> set (or_empty spiderUrls). origin_of E u = Some origin} \<and>
       total a = card (set (or_empty coreUrls) \<union> set (or_empty spiderUrls)))"
proof -
  from main_written [OF assms(1)] assms(2,3)
  have e: "is_engine_artifact E a" and w: "written tr = [(a, True)]" and r: "r = Inr ()"
    by (auto dest: engine_artifact_error fallback_error)
  from engine_artifact_facts [OF e] obtain cu su origin where f:
    "core_urls E = Some cu" "spider_results E = Some su"
    "origin_of E (TARGET_URL E) = Some origin"
    "map entry_url (urls a) =
        filter (\<lambda>u. origin_of E u = Some origin) (array_from_set (or_empty cu @ or_empty su))"
    "total a = length (array_from_set (or_empty cu @ or_empty su))"
    "sameOrigin a = length (urls a)"
    "\<forall>d \<in> set (urls a). source d = ''zap''"
    by blast
  from f(4) have d: "distinct (map entry_url (urls a))"
    by (simp add: distinct_array_from_set)
  from f(4) have s: "set (map entry_url (urls a)) =
      {u \<in> set (or_empty cu) \<union> set (or_empty su). origin_of E u = Some origin}"
    by (auto simp: set_array_from_set simp del: set_map)
  from f(5) have t: "total a = card (set (or_empty cu) \<union> set (or_empty su))"
    by (simp add: length_array_from_set)
  from r w d s t f show ?thesis by blast
qed

text \<open>
  Claim C3 as stated has every entry carry the source \<open>engine\<close>. On the successful path
  every entry carries the source \<open>zap\<close>.
\<close>

theorem engine_entries_carry_source_zap:
  "main calm_world = Some (Inr (), calm_trace True) \<and>
   written (calm_trace True) = [(calm_artifact, True)] \<and>
   map source (urls calm_artifact) = [''zap'', ''zap'', ''zap''] \<and>
   ''zap'' \<noteq> ''engine''"
  using calm_main by (simp add: calm_trace_def calm_artifact_def)

theorem engine_result_on_success_witness:
  "main calm_world = Some (Inr (), calm_trace True) \<and>
   (calm_artifact, True) \<in> set (written (calm_trace True)) \<and> error calm_artifact = None \<and>
   written (calm_trace True) = [(calm_artifact, True)] \<and>
   distinct (map entry_url (urls calm_artifact)) \<and>
   map entry_url (urls calm_artifact) = [''https://x/'', ''https://x/a'', ''https://x/b'']"
proof -
  have m: "(calm_artifact, True) \<in> set (written (calm_trace True))" and e: "error calm_artifact = None"
    and u: "map entry_url (urls calm_artifact) = [''https://x/'', ''https://x/a'', ''https://x/b'']"
    by (simp_all add: calm_trace_def calm_artifact_def)
  from engine_result_on_success [OF calm_main m e]
  have "written (calm_trace True) = [(calm_artifact, True)]"
    "distinct (map entry_url (urls calm_artifact))"
    by blast+
  with calm_main m e u show ?thesis by blast
qed

text \<open>
  Claim C4. The fallback artifact, for any reason, has exactly one entry, the target url
  with source \<open>fallback\<close>, and the counts \<open>total = 1\<close> and \<open>sameOrigin = 1\<close>;
  \<open>writeFallbackUrls\<close> writes that artifact. In every run, each artifact with an
  \<open>error\<close> has this shape, is free of duplicates and holds only urls of the target's
  origin; and a run that wrote no artifact without \<open>error\<close> ends with a fallback
  artifact as its last write.
\<close>

theorem fallback_result_single_target:
  "urls (fallback_artifact E reason now) = [\<lparr>entry_url = TARGET_URL E, source = ''fallback''\<rparr>] \<and>
   total (fallback_artifact E reason now) = 1 \<and>
   sameOrigin (fallback_artifact E reason now) = 1 \<and>
   error (fallback_artifact E reason now) = Some reason \<and>
   written (snd (writeFallbackUrls E reason tr0)) =
     written tr0 @ [(fallback_artifact E reason (clock E (length tr0)), write_ok E (length (written tr0)))] \<and>
   (run E = Some (r, tr) \<longrightarrow>
      (\<forall>(a, ok) \<in> set (written tr). error a \<noteq> None \<longrightarrow>
         urls a = [\<lparr>entry_url = TARGET_URL E, source = ''fallback''\<rparr>] \<and>
         total a = 1 \<and> sameOrigin a = 1 \<and>
         array_from_set (map entry_url (urls a)) = map entry_url (urls a) \<and>
         (\<forall>u \<in> set (map entry_url (urls a)). origin_of E u = origin_of E (TARGET_URL E))) \<and>
      ((\<nexists>a. (a, True) \<in> set (written tr) \<and> error a = None) \<longrightarrow>
         written tr \<noteq> [] \<and> error (fst (last (written tr))) \<noteq> None))"
  (is "?U \<and> ?T \<and> ?S \<and> ?R \<and> ?W \<and> ?Run")
proof -
  have shape: "urls a = [\<lparr>entry_url = TARGET_URL E, source = ''fallback''\<rparr>] \<and>
         total a = 1 \<and> sameOrigin a = 1 \<and>
         array_from_set (map entry_url (urls a)) = map entry_url (urls a) \<and>
         (\<forall>u \<in> set (map entry_url (urls a)). origin_of E u = origin_of E (TARGET_URL E))"
    if "is_fallback E code a" for code a
    using that by (auto simp: is_fallback_def fallback_artifact_def array_from_set_def)
  have fb: "is_fallback E code (fallback_artifact E code t)" for code t
    by (auto simp: is_fallback_def)
  have main_part: "(\<forall>(a, ok) \<in> set (written tr). error a \<noteq> None \<longrightarrow>
        is_fallback E ''docker_unavailable'' a \<or> is_fallback E ''zap_failed'' a) \<and>
      (r = Inr () \<longrightarrow> (\<nexists>a. (a, True) \<in> set (written tr) \<and> error a = None) \<longrightarrow>
         written tr \<noteq> [] \<and> error (fst (last (written tr))) \<noteq> None)"
    if m: "main E = Some (r, tr)" for r tr
  proof -
    from main_written [OF m] consider
        "written tr = []" "r \<noteq> Inr ()"
      | a ok where "is_fallback E ''docker_unavailable'' a" "written tr = [(a, ok)]"
      | a where "is_engine_artifact E a" "written tr = [(a, True)]"
      | c ok where "is_fallback E ''zap_failed'' c" "written tr = [(c, ok)]"
      | a c ok where "is_engine_artifact E a" "is_fallback E ''zap_failed'' c"
          "written tr = [(a, False), (c, ok)]"
      by (elim disjE exE conjE) auto
    then show ?thesis
    proof cases
      case 1
      then show ?thesis by simp
    next
      case 2
      then show ?thesis by (simp add: fallback_error)
    next
      case 3
      then show ?thesis by (simp add: engine_artifact_error)
    next
      case 4
      then show ?thesis by (simp add: fallback_error)
    next
      case 5
      then show ?thesis by (simp add: fallback_error engine_artifact_error)
    qed
  qed
  have ?Run
  proof
    assume "run E = Some (r, tr)"
    then show "(\<forall>(a, ok) \<in> set (written tr). error a \<noteq> None \<longrightarrow>
         urls a = [\<lparr>entry_url = TARGET_URL E, source = ''fallback''\<rparr>] \<and>
         total a = 1 \<and> sameOrigin a = 1 \<and>
         array_from_set (map entry_url (urls a)) = map entry_url (urls a) \<and>
         (\<forall>u \<in> set (map entry_url (urls a)). origin_of E u = origin_of E (TARGET_URL E))) \<and>
      ((\<nexists>a. (a, True) \<in> set (written tr) \<and> error a = None) \<longrightarrow>
         written tr \<noteq> [] \<and> error (fst (last (written tr))) \<noteq> None)"
    proof (cases rule: run_cases)
      case returned
      from main_part [OF returned(1)]
      have "\<forall>(a, ok) \<in> set (written tr). error a \<noteq> None \<longrightarrow>
          is_fallback E ''docker_unavailable'' a \<or> is_fallback E ''zap_failed'' a"
        and "(\<nexists>a. (a, True) \<in> set (written tr) \<and> error a = None) \<longrightarrow>
         written tr \<noteq> [] \<and> error (fst (last (written tr))) \<noteq> None"
        by simp_all
      with shape show ?thesis by (intro conjI) (blast, assumption)
    next
      case (raised e tr0 ok)
      let ?c = "fallback_artifact E ''unexpected_error'' (clock E (Suc (length tr0)))"
      from raised(2) have w: "written tr = written tr0 @ [(?c, ok)]" by simp
      from main_part [OF raised(1)]
      have "\<forall>(a, ok) \<in> set (written tr0). error a \<noteq> None \<longrightarrow>
          is_fallback E ''docker_unavailable'' a \<or> is_fallback E ''zap_failed'' a"
        by simp
      with fb [of "''unexpected_error''" "clock E (Suc (length tr0))"]
      have "\<forall>(a, ok) \<in> set (written tr). error a \<noteq> None \<longrightarrow> (\<exists>code. is_fallback E code a)"
        unfolding w by auto
      with shape have "\<forall>(a, ok) \<in> set (written tr). error a \<noteq> None \<longrightarrow>
         urls a = [\<lparr>entry_url = TARGET_URL E, source = ''fallback''\<rparr>] \<and>
         total a = 1 \<and> sameOrigin a = 1 \<and>
         array_from_set (map entry_url (urls a)) = map entry_url (urls a) \<and>
         (\<forall>u \<in> set (map entry_url (urls a)). origin_of E u = origin_of E (TARGET_URL E))"
        by blast
      moreover have "written tr \<noteq> [] \<and> error (fst (last (written tr))) \<noteq> None"
        unfolding w by (simp add: fallback_facts)
      ultimately show ?thesis by blast
    qed
  qed
  moreover have ?W by (simp add: writeFallbackUrls_eq)
  ultimately show ?thesis using fallback_facts [of E reason now] by (intro conjI)
qed

theorem fallback_result_single_target_witness:
  "run no_docker_world = Some (Inr (), no_docker_trace) \<and>
   (fallback_x ''docker_unavailable'', True) \<in> set (written no_docker_trace) \<and>
   error (fallback_x ''docker_unavailable'') \<noteq> None \<and>
   urls (fallback_x ''docker_unavailable'') =
     [\<lparr>entry_url = TARGET_URL no_docker_world, source = ''fallback''\<rparr>] \<and>
   total (fallback_x ''docker_unavailable'') = 1 \<and>
   sameOrigin (fallback_x ''docker_unavailable'') = 1 \<and>
   TARGET_URL no_docker_world = ''https://x/'' \<and>
   error (fst (last (written no_docker_trace))) \<noteq> None"
proof -
  have nd: "run no_docker_world = Some (Inr (), no_docker_trace)"
    using no_docker_main by (simp add: run_def)
  have m: "(fallback_x ''docker_unavailable'', True) \<in> set (written no_docker_trace)"
    and e: "error (fallback_x ''docker_unavailable'') \<noteq> None"
    and t: "TARGET_URL no_docker_world = ''https://x/''"
    and n: "\<nexists>a. (a, True) \<in> set (written no_docker_trace) \<and> error a = None"
    by (simp_all add: no_docker_trace_def fallback_x_def no_docker_world_def calm_world_def)
  from fallback_result_single_target [of no_docker_world _ _ _ "Inr ()" no_docker_trace] nd
  have b: "\<forall>(a, ok) \<in> set (written no_docker_trace). error a \<noteq> None \<longrightarrow>
         urls a = [\<lparr>entry_url = TARGET_URL no_docker_world, source = ''fallback''\<rparr>] \<and>
         total a = 1 \<and> sameOrigin a = 1 \<and>
         array_from_set (map entry_url (urls a)) = map entry_url (urls a) \<and>
         (\<forall>u \<in> set (map entry_url (urls a)). origin_of no_docker_world u = origin_of no_docker_world (TARGET_URL no_docker_world))"
    and l: "(\<nexists>a. (a, True) \<in> set (written no_docker_trace) \<and> error a = None) \<longrightarrow>
         written no_docker_trace \<noteq> [] \<and> error (fst (last (written no_docker_trace))) \<noteq> None"
    by blast+
  from b m e have "urls (fallback_x ''docker_unavailable'') =
     [\<lparr>entry_url = TARGET_URL no_docker_world, source = ''fallback''\<rparr>]"
   "total (fallback_x ''docker_unavailable'') = 1" "sameOrigin (fallback_x ''docker_unavailable'') = 1"
    by blast+
  moreover from l n have "error (fst (last (written no_docker_trace))) \<noteq> None" by blast
  ultimately show ?thesis using nd m e t by blast
qed


end
